theory Spec2Isabelle
  imports Main
begin

section \<open>JavaScript values\<close>

text \<open>
  The store is dynamically typed: record fields, table names and ids are JavaScript
  values whose run-time type the code inspects with \<^verbatim>\<open>typeof\<close>, truthiness tests and
  comparisons against \<^verbatim>\<open>null\<close> and \<^verbatim>\<open>undefined\<close>.  A value is therefore a datatype.

  Numbers: the finite numbers of the model are the integers; \<open>NaN\<close> and the two
  infinities are kept because they have type \<^verbatim>\<open>number\<close>, pass the validator and are
  treated specially by \<^verbatim>\<open>JSON.stringify\<close>, by truthiness and by the storage engine.
  Fractions and the rounding of doubles are outside the model.

  Strings are character lists; objects are association lists in property order.  An object
  of the language never has two properties of the same name, which is part of the predicate
  \<open>json_value\<close> below.  A property read looks at the properties of the object itself; the
  one read that can reach an inherited property, \<^verbatim>\<open>record[column]\<close> in \<^verbatim>\<open>increment\<close>, is
  treated there.
\<close>

datatype jsnum = Fin int | NaN | PosInf | NegInf

datatype jsval =
    JUndefined
  | JNull
  | JBool bool
  | JNum jsnum
  | JStr string
  | JArr "jsval list"
  | JObj "(string \<times> jsval) list"

fun typeof :: "jsval \<Rightarrow> string" where
  "typeof JUndefined = ''undefined''"
| "typeof JNull = ''object''"
| "typeof (JBool b) = ''boolean''"
| "typeof (JNum n) = ''number''"
| "typeof (JStr s) = ''string''"
| "typeof (JArr xs) = ''object''"
| "typeof (JObj kvs) = ''object''"

text \<open>Truthiness, as \<^verbatim>\<open>!v\<close>, \<^verbatim>\<open>v ? a : b\<close> and \<^verbatim>\<open>v || w\<close> read it.\<close>

fun truthy :: "jsval \<Rightarrow> bool" where
  "truthy JUndefined = False"
| "truthy JNull = False"
| "truthy (JBool b) = b"
| "truthy (JNum (Fin i)) = (i \<noteq> 0)"
| "truthy (JNum NaN) = False"
| "truthy (JNum PosInf) = True"
| "truthy (JNum NegInf) = True"
| "truthy (JStr s) = (s \<noteq> [])"
| "truthy (JArr xs) = True"
| "truthy (JObj kvs) = True"

text \<open>Addition of two numbers (\<^verbatim>\<open>currentValue + value\<close> in \<^verbatim>\<open>increment\<close>).\<close>

fun num_add :: "jsnum \<Rightarrow> jsnum \<Rightarrow> jsnum" where
  "num_add (Fin a) (Fin b) = Fin (a + b)"
| "num_add NaN _ = NaN"
| "num_add _ NaN = NaN"
| "num_add PosInf NegInf = NaN"
| "num_add NegInf PosInf = NaN"
| "num_add PosInf _ = PosInf"
| "num_add _ PosInf = PosInf"
| "num_add NegInf _ = NegInf"
| "num_add _ NegInf = NegInf"

text \<open>A record (\<^verbatim>\<open>RowData = Record<string, any>\<close>) maps its own property names to values.\<close>

type_synonym RowData = "string \<rightharpoonup> jsval"

text \<open>\<^verbatim>\<open>data[name]\<close>: the value of the property, \<^verbatim>\<open>undefined\<close> when there is none.\<close>

definition property :: "RowData \<Rightarrow> string \<Rightarrow> jsval" where
  "property data name = (case data name of None \<Rightarrow> JUndefined | Some v \<Rightarrow> v)"

section \<open>Number and string conversions of the language\<close>

definition digit_char :: "nat \<Rightarrow> char" where
  "digit_char d = char_of (48 + d)"

definition is_digit :: "char \<Rightarrow> bool" where
  "is_digit c = (48 \<le> (of_char c :: nat) \<and> (of_char c :: nat) \<le> 57)"

definition digit_val :: "char \<Rightarrow> nat" where
  "digit_val c = of_char c - 48"

fun show_nat :: "nat \<Rightarrow> string" where
  "show_nat n = (if n < 10 then [digit_char n] else show_nat (n div 10) @ [digit_char (n mod 10)])"

declare show_nat.simps [simp del]

definition show_int :: "int \<Rightarrow> string" where
  "show_int i = (if i < 0 then CHR ''-'' # show_nat (nat (- i)) else show_nat (nat i))"

text \<open>\<^verbatim>\<open>String(v)\<close> for a number.\<close>

fun num_to_string :: "jsnum \<Rightarrow> string" where
  "num_to_string (Fin i) = show_int i"
| "num_to_string NaN = ''NaN''"
| "num_to_string PosInf = ''Infinity''"
| "num_to_string NegInf = ''-Infinity''"

fun read_digits :: "nat \<Rightarrow> string \<Rightarrow> nat \<times> string" where
  "read_digits acc [] = (acc, [])"
| "read_digits acc (c # cs) =
     (if is_digit c then read_digits (acc * 10 + digit_val c) cs else (acc, c # cs))"

definition is_ws :: "char \<Rightarrow> bool" where
  "is_ws c = (c = CHR '' '' \<or> c = CHR 0x09 \<or> c = CHR 0x0A \<or> c = CHR 0x0D)"

definition skip_ws :: "string \<Rightarrow> string" where
  "skip_ws s = dropWhile is_ws s"

text \<open>
  \<^verbatim>\<open>Number(v)\<close>.  On a string: surrounding white space is dropped, the empty string is 0,
  an optionally signed run of decimal digits is that integer, the spellings of the
  infinities are the infinities, and everything else is \<open>NaN\<close>.  (Numerals with a
  fraction, an exponent or a radix prefix denote numbers outside the integer model.)
\<close>

definition string_to_number :: "string \<Rightarrow> jsnum" where
  "string_to_number s =
     (let t = rev (skip_ws (rev (skip_ws s))) in
      if t = [] then Fin 0
      else if t = ''Infinity'' \<or> t = ''+Infinity'' then PosInf
      else if t = ''-Infinity'' then NegInf
      else
        (let (neg, ds) =
               (case t of c # r \<Rightarrow>
                  if c = CHR ''-'' then (True, r) else if c = CHR ''+'' then (False, r) else (False, t)
                | [] \<Rightarrow> (False, t))
         in if ds \<noteq> [] \<and> list_all is_digit ds
            then (let n = int (fst (read_digits 0 ds)) in Fin (if neg then - n else n))
            else NaN))"

definition join :: "string \<Rightarrow> string list \<Rightarrow> string" where
  "join sep xs = concat (case xs of [] \<Rightarrow> [] | x # r \<Rightarrow> x # map (\<lambda>y. sep @ y) r)"

text \<open>\<^verbatim>\<open>String(v)\<close>: an array joins its elements with commas, an object prints its tag.\<close>

fun to_string :: "jsval \<Rightarrow> string" where
  "to_string JUndefined = ''undefined''"
| "to_string JNull = ''null''"
| "to_string (JBool b) = (if b then ''true'' else ''false'')"
| "to_string (JNum n) = num_to_string n"
| "to_string (JStr s) = s"
| "to_string (JArr xs) =
     join '','' (map (\<lambda>x. if x = JUndefined \<or> x = JNull then [] else to_string x) xs)"
| "to_string (JObj kvs) = ''[object Object]''"

fun to_number :: "jsval \<Rightarrow> jsnum" where
  "to_number JUndefined = NaN"
| "to_number JNull = Fin 0"
| "to_number (JBool b) = Fin (if b then 1 else 0)"
| "to_number (JNum n) = n"
| "to_number (JStr s) = string_to_number s"
| "to_number (JArr xs) = string_to_number (to_string (JArr xs))"
| "to_number (JObj kvs) = string_to_number (to_string (JObj kvs))"

section \<open>The JSON codec of the language\<close>

text \<open>
  \<^verbatim>\<open>JSON.stringify(value)\<close> without indentation.  A value that is \<^verbatim>\<open>undefined\<close> has no
  text (the call returns \<^verbatim>\<open>undefined\<close>); inside an array it prints as \<^verbatim>\<open>null\<close>, inside an
  object its property is left out.  \<open>NaN\<close> and the infinities print as \<^verbatim>\<open>null\<close>.
  In a string the quote, the backslash and the control characters are escaped.
\<close>

definition hex_char :: "nat \<Rightarrow> char" where
  "hex_char d = (if d < 10 then char_of (48 + d) else char_of (87 + d))"

definition quote_char :: "char \<Rightarrow> string" where
  "quote_char c =
     (if c = CHR 0x22 then [CHR 0x5C, CHR 0x22]
      else if c = CHR 0x5C then [CHR 0x5C, CHR 0x5C]
      else if c = CHR 0x08 then [CHR 0x5C, CHR ''b'']
      else if c = CHR 0x0C then [CHR 0x5C, CHR ''f'']
      else if c = CHR 0x0A then [CHR 0x5C, CHR ''n'']
      else if c = CHR 0x0D then [CHR 0x5C, CHR ''r'']
      else if c = CHR 0x09 then [CHR 0x5C, CHR ''t'']
      else if (of_char c :: nat) < 32
        then [CHR 0x5C, CHR ''u'', CHR ''0'', CHR ''0'',
              hex_char (of_char c div 16), hex_char (of_char c mod 16)]
      else [c])"

definition quote :: "string \<Rightarrow> string" where
  "quote s = CHR 0x22 # concat (map quote_char s) @ [CHR 0x22]"

fun serialize_json :: "jsval \<Rightarrow> string" where
  "serialize_json JUndefined = ''null''"
| "serialize_json JNull = ''null''"
| "serialize_json (JBool b) = (if b then ''true'' else ''false'')"
| "serialize_json (JNum (Fin i)) = show_int i"
| "serialize_json (JNum NaN) = ''null''"
| "serialize_json (JNum PosInf) = ''null''"
| "serialize_json (JNum NegInf) = ''null''"
| "serialize_json (JStr s) = quote s"
| "serialize_json (JArr xs) = ''['' @ join '','' (map serialize_json xs) @ '']''"
| "serialize_json (JObj kvs) =
     ''{'' @ join '','' (map (\<lambda>(k, v). quote k @ '':'' @ serialize_json v)
                          (filter (\<lambda>(k, v). v \<noteq> JUndefined) kvs)) @ ''}''"

definition JSON_stringify :: "jsval \<Rightarrow> jsval" where
  "JSON_stringify v = (if v = JUndefined then JUndefined else JStr (serialize_json v))"

text \<open>
  \<^verbatim>\<open>JSON.parse(text)\<close>: a recursive-descent reader of the JSON grammar, with integer
  numerals for numbers and the characters of the model for strings (an escape
  \<^verbatim>\<open>\uXXXX\<close> above \<^verbatim>\<open>00FF\<close> names no character of the model).  It returns the value
  read and the rest of the text, or nothing on a syntax error.  The readers of arrays and
  objects call the reader of values and back, so they count their calls down from a
  bound; \<open>JSON_parse\<close> starts them with more than any text of that length can use.
\<close>

definition hex_val :: "char \<Rightarrow> nat option" where
  "hex_val c =
     (let n = (of_char c :: nat) in
      if 48 \<le> n \<and> n \<le> 57 then Some (n - 48)
      else if 97 \<le> n \<and> n \<le> 102 then Some (n - 87)
      else if 65 \<le> n \<and> n \<le> 70 then Some (n - 55)
      else None)"

definition hex4 :: "char \<Rightarrow> char \<Rightarrow> char \<Rightarrow> char \<Rightarrow> char option" where
  "hex4 a b c d =
     (case (hex_val a, hex_val b, hex_val c, hex_val d) of
        (Some x, Some y, Some z, Some w) \<Rightarrow>
          (if x = 0 \<and> y = 0 then Some (char_of (z * 16 + w)) else None)
      | _ \<Rightarrow> None)"

definition unescape :: "char \<Rightarrow> char option" where
  "unescape e =
     (if e = CHR 0x22 then Some (CHR 0x22)
      else if e = CHR 0x5C then Some (CHR 0x5C)
      else if e = CHR ''/'' then Some (CHR ''/'')
      else if e = CHR ''b'' then Some (CHR 0x08)
      else if e = CHR ''f'' then Some (CHR 0x0C)
      else if e = CHR ''n'' then Some (CHR 0x0A)
      else if e = CHR ''r'' then Some (CHR 0x0D)
      else if e = CHR ''t'' then Some (CHR 0x09)
      else None)"

definition cons_fst :: "'a \<Rightarrow> ('a list \<times> 'b) option \<Rightarrow> ('a list \<times> 'b) option" where
  "cons_fst x r = (case r of None \<Rightarrow> None | Some (xs, rest) \<Rightarrow> Some (x # xs, rest))"

text \<open>The characters of a string literal, after its opening quote.\<close>

fun parse_chars :: "string \<Rightarrow> (string \<times> string) option" where
  "parse_chars [] = None"
| "parse_chars (c # cs) =
     (if c = CHR 0x22 then Some ([], cs)
      else if c = CHR 0x5C then
        (case cs of
           [] \<Rightarrow> None
         | e # r \<Rightarrow>
            (if e = CHR ''u'' then
               (case r of
                  a # b # c' # d # r' \<Rightarrow>
                    (case hex4 a b c' d of
                       None \<Rightarrow> None
                     | Some ch \<Rightarrow> cons_fst ch (parse_chars r'))
                | _ \<Rightarrow> None)
             else
               (case unescape e of
                  None \<Rightarrow> None
                | Some ch \<Rightarrow> cons_fst ch (parse_chars r))))
      else if (of_char c :: nat) < 32 then None
      else cons_fst c (parse_chars cs))"

text \<open>An integer numeral: an optional minus, then 0 or a digit run that does not start with 0.\<close>

definition parse_nat :: "string \<Rightarrow> (nat \<times> string) option" where
  "parse_nat s =
     (case s of
        [] \<Rightarrow> None
      | c # cs \<Rightarrow>
          if c = CHR ''0'' then Some (0, cs)
          else if is_digit c then Some (read_digits 0 (c # cs))
          else None)"

definition parse_int :: "string \<Rightarrow> (int \<times> string) option" where
  "parse_int s =
     (case s of
        [] \<Rightarrow> None
      | c # cs \<Rightarrow>
          if c = CHR ''-'' then
            (case parse_nat cs of None \<Rightarrow> None | Some (n, r) \<Rightarrow> Some (- int n, r))
          else
            (case parse_nat s of None \<Rightarrow> None | Some (n, r) \<Rightarrow> Some (int n, r)))"

definition literal :: "string \<Rightarrow> jsval \<Rightarrow> string \<Rightarrow> (jsval \<times> string) option" where
  "literal word v s =
     (if take (length word) s = word then Some (v, drop (length word) s) else None)"

text \<open>
  Assigning the members of an object text in order: a repeated name overwrites the value
  of the property and keeps its place.
\<close>

fun set_property :: "string \<Rightarrow> jsval \<Rightarrow> (string \<times> jsval) list \<Rightarrow> (string \<times> jsval) list" where
  "set_property k v [] = [(k, v)]"
| "set_property k v (p # ps) = (if fst p = k then (k, v) # ps else p # set_property k v ps)"

definition build_object :: "(string \<times> jsval) list \<Rightarrow> jsval" where
  "build_object members = JObj (foldl (\<lambda>acc (k, v). set_property k v acc) [] members)"

fun parse_value :: "nat \<Rightarrow> string \<Rightarrow> (jsval \<times> string) option"
and parse_elements :: "nat \<Rightarrow> string \<Rightarrow> (jsval list \<times> string) option"
and parse_members :: "nat \<Rightarrow> string \<Rightarrow> ((string \<times> jsval) list \<times> string) option"
where
  "parse_value 0 s = None"
| "parse_value (Suc n) s =
     (case skip_ws s of
        [] \<Rightarrow> None
      | c # cs \<Rightarrow>
          if c = CHR ''n'' then literal ''ull'' JNull cs
          else if c = CHR ''t'' then literal ''rue'' (JBool True) cs
          else if c = CHR ''f'' then literal ''alse'' (JBool False) cs
          else if c = CHR 0x22 then
            (case parse_chars cs of None \<Rightarrow> None | Some (str, r) \<Rightarrow> Some (JStr str, r))
          else if c = CHR ''['' then
            (case skip_ws cs of
               [] \<Rightarrow> None
             | d # r \<Rightarrow>
                 if d = CHR '']'' then Some (JArr [], r)
                 else (case parse_elements n cs of
                         None \<Rightarrow> None
                       | Some (vs, r') \<Rightarrow> Some (JArr vs, r')))
          else if c = CHR ''{'' then
            (case skip_ws cs of
               [] \<Rightarrow> None
             | d # r \<Rightarrow>
                 if d = CHR ''}'' then Some (JObj [], r)
                 else (case parse_members n cs of
                         None \<Rightarrow> None
                       | Some (ms, r') \<Rightarrow> Some (build_object ms, r')))
          else
            (case parse_int (c # cs) of
               None \<Rightarrow> None
             | Some (i, r) \<Rightarrow> Some (JNum (Fin i), r)))"
| "parse_elements 0 s = None"
| "parse_elements (Suc n) s =
     (case parse_value n s of
        None \<Rightarrow> None
      | Some (v, r) \<Rightarrow>
          (case skip_ws r of
             [] \<Rightarrow> None
           | c # r' \<Rightarrow>
               if c = CHR '','' then cons_fst v (parse_elements n r')
               else if c = CHR '']'' then Some ([v], r')
               else None))"
| "parse_members 0 s = None"
| "parse_members (Suc n) s =
     (case skip_ws s of
        [] \<Rightarrow> None
      | q # cs \<Rightarrow>
          if q \<noteq> CHR 0x22 then None
          else
            (case parse_chars cs of
               None \<Rightarrow> None
             | Some (k, r) \<Rightarrow>
                 (case skip_ws r of
                    [] \<Rightarrow> None
                  | c # r1 \<Rightarrow>
                      if c \<noteq> CHR '':'' then None
                      else
                        (case parse_value n r1 of
                           None \<Rightarrow> None
                         | Some (v, r2) \<Rightarrow>
                             (case skip_ws r2 of
                                [] \<Rightarrow> None
                              | c' # r3 \<Rightarrow>
                                  if c' = CHR '','' then cons_fst (k, v) (parse_members n r3)
                                  else if c' = CHR ''}'' then Some ([(k, v)], r3)
                                  else None)))))"

text \<open>
  \<^verbatim>\<open>JSON.parse(text)\<close> throws a \<^verbatim>\<open>SyntaxError\<close> (here: \<open>None\<close>) unless the whole text is
  one value, white space around it apart.
\<close>

definition JSON_parse_text :: "string \<Rightarrow> jsval option" where
  "JSON_parse_text s =
     (case parse_value (2 * length s + 2) s of
        None \<Rightarrow> None
      | Some (v, r) \<Rightarrow> if skip_ws r = [] then Some v else None)"

text \<open>The argument of \<^verbatim>\<open>JSON.parse\<close> is first converted to a string.\<close>

definition JSON_parse :: "jsval \<Rightarrow> jsval option" where
  "JSON_parse v = JSON_parse_text (to_string v)"

section \<open>What JSON text can hold\<close>

text \<open>
  The values that \<^verbatim>\<open>JSON.stringify\<close> writes without loss: \<^verbatim>\<open>null\<close>, booleans, finite
  numbers, strings, and arrays and objects of such values; an object has each property
  name once.
\<close>

fun json_value :: "jsval \<Rightarrow> bool" where
  "json_value JUndefined = False"
| "json_value JNull = True"
| "json_value (JBool b) = True"
| "json_value (JNum (Fin i)) = True"
| "json_value (JNum NaN) = False"
| "json_value (JNum PosInf) = False"
| "json_value (JNum NegInf) = False"
| "json_value (JStr s) = True"
| "json_value (JArr xs) = list_all json_value xs"
| "json_value (JObj kvs) = (distinct (map fst kvs) \<and> list_all (\<lambda>(k, v). json_value v) kvs)"

text \<open>
  What a value becomes when it is written as JSON and read back: \<^verbatim>\<open>undefined\<close> in an
  array, \<open>NaN\<close> and the infinities become \<^verbatim>\<open>null\<close>, and a property whose value is
  \<^verbatim>\<open>undefined\<close> is dropped.
\<close>

fun through_json :: "jsval \<Rightarrow> jsval" where
  "through_json JUndefined = JNull"
| "through_json JNull = JNull"
| "through_json (JBool b) = JBool b"
| "through_json (JNum (Fin i)) = JNum (Fin i)"
| "through_json (JNum NaN) = JNull"
| "through_json (JNum PosInf) = JNull"
| "through_json (JNum NegInf) = JNull"
| "through_json (JStr s) = JStr s"
| "through_json (JArr xs) = JArr (map through_json xs)"
| "through_json (JObj kvs) =
     build_object (map (\<lambda>(k, v). (k, through_json v))
                     (filter (\<lambda>(k, v). v \<noteq> JUndefined) kvs))"

text \<open>Notions of the proofs about the reader: how a value text starts and where a numeral ends.\<close>

definition value_start :: "char \<Rightarrow> bool" where
  "value_start c =
     (c = CHR ''n'' \<or> c = CHR ''t'' \<or> c = CHR ''f'' \<or> c = CHR 0x22 \<or> c = CHR ''[''
      \<or> c = CHR ''{'' \<or> c = CHR ''-'' \<or> is_digit c)"

definition delimited :: "string \<Rightarrow> bool" where
  "delimited r = (r = [] \<or> \<not> is_digit (hd r))"

definition member_text :: "string \<times> jsval \<Rightarrow> string" where
  "member_text kv = quote (fst kv) @ '':'' @ serialize_json (snd kv)"

section \<open>Errors, column types and schemas\<close>

text \<open>
  \<^verbatim>\<open>createError(message, kind)\<close> builds an error that carries one of the three kinds of
  \<^verbatim>\<open>ErrorKind\<close>; the message is not modelled.  Two more errors reach the caller without a
  kind, because the code does not catch them: the \<^verbatim>\<open>SyntaxError\<close> of \<^verbatim>\<open>JSON.parse\<close> and an
  error thrown by the storage engine.
\<close>

datatype ErrorKind = MissingValue | ParseException | InvalidType

datatype error = SquirrelError ErrorKind | SyntaxError | EngineError

definition createError :: "ErrorKind \<Rightarrow> error" where
  "createError kind = SquirrelError kind"

datatype ColumnType = Col_string | Col_number | Col_boolean | Col_json

type_synonym ColumnDefinition = "string \<times> ColumnType"

record TableSchema =
  columns :: "ColumnDefinition list"

fun getSQLiteType :: "ColumnType \<Rightarrow> string" where
  "getSQLiteType Col_string = ''TEXT''"
| "getSQLiteType Col_number = ''REAL''"
| "getSQLiteType Col_boolean = ''INTEGER''"
| "getSQLiteType Col_json = ''TEXT''"

section \<open>The type coercion engine\<close>

definition serializeValue :: "jsval \<Rightarrow> ColumnType \<Rightarrow> jsval" where
  "serializeValue v ty =
     (case ty of
        Col_json \<Rightarrow> JSON_stringify v
      | Col_boolean \<Rightarrow> JNum (Fin (if truthy v then 1 else 0))
      | _ \<Rightarrow> v)"

definition deserializeValue :: "jsval \<Rightarrow> ColumnType \<Rightarrow> error + jsval" where
  "deserializeValue v ty =
     (if v = JNull then Inr JNull
      else
        (case ty of
           Col_json \<Rightarrow> (case JSON_parse v of None \<Rightarrow> Inl SyntaxError | Some w \<Rightarrow> Inr w)
         | Col_boolean \<Rightarrow> Inr (JBool (v = JNum (Fin 1)))
         | Col_number \<Rightarrow> Inr (JNum (to_number v))
         | Col_string \<Rightarrow> Inr v))"

text \<open>
  The values of a column type, as \<^verbatim>\<open>validateRowData\<close> tells them apart by \<^verbatim>\<open>typeof\<close>; for
  \<^verbatim>\<open>json\<close>, the values that JSON text can hold.
\<close>

fun value_of_type :: "ColumnType \<Rightarrow> jsval \<Rightarrow> bool" where
  "value_of_type Col_string v = (typeof v = ''string'')"
| "value_of_type Col_number v = (typeof v = ''number'')"
| "value_of_type Col_boolean v = (typeof v = ''boolean'')"
| "value_of_type Col_json v = json_value v"

section \<open>The storage engine\<close>

text \<open>
  The relational engine is outside the repository; the store talks to it through four
  statements, built by string interpolation: \<^verbatim>\<open>CREATE TABLE IF NOT EXISTS\<close>,
  \<^verbatim>\<open>INSERT OR REPLACE\<close>, \<^verbatim>\<open>SELECT\<close> (by id, all rows, by \<^verbatim>\<open>LIKE\<close> on the id) and
  \<^verbatim>\<open>DELETE\<close> (by id, all rows).  The model of the engine is the least that gives these
  statements their meaning:
  \<^item> a database maps a table name to the column definitions the table was created with
    and to its rows, in insertion order; a row gives every column a value, \<open>NULL\<close>
    where none was written;
  \<^item> a statement fails when the table name or a column name is not a plain identifier,
    when the table or a column it names does not exist, and on creation when two columns
    share a name;
  \<^item> binding a parameter turns \<^verbatim>\<open>null\<close>, \<^verbatim>\<open>undefined\<close> and \<open>NaN\<close> into \<open>NULL\<close>, a boolean
    into 0 or 1, and refuses arrays and objects; values are stored as bound (the
    conversions of column affinity are not modelled);
  \<^item> \<^verbatim>\<open>INSERT OR REPLACE\<close> removes the rows that agree with the new one on the primary
    key, then appends the new row.
\<close>

datatype sql_value = SqlNull | SqlNum jsnum | SqlText string

type_synonym sql_row = "string \<Rightarrow> sql_value"

record sql_table =
  col_defs :: "(string \<times> string \<times> bool) list"
  rows :: "sql_row list"

type_synonym Database = "string \<rightharpoonup> sql_table"

definition is_alnum :: "char \<Rightarrow> bool" where
  "is_alnum c =
     (let n = (of_char c :: nat) in
      (48 \<le> n \<and> n \<le> 57) \<or> (65 \<le> n \<and> n \<le> 90) \<or> (97 \<le> n \<and> n \<le> 122))"

definition sql_identifier :: "string \<Rightarrow> bool" where
  "sql_identifier s =
     (case s of
        [] \<Rightarrow> False
      | c # cs \<Rightarrow> \<not> is_digit c \<and> list_all (\<lambda>x. is_alnum x \<or> x = CHR ''_'') s)"

fun bind :: "jsval \<Rightarrow> sql_value option" where
  "bind JUndefined = Some SqlNull"
| "bind JNull = Some SqlNull"
| "bind (JBool b) = Some (SqlNum (Fin (if b then 1 else 0)))"
| "bind (JNum NaN) = Some SqlNull"
| "bind (JNum n) = Some (SqlNum n)"
| "bind (JStr s) = Some (SqlText s)"
| "bind (JArr xs) = None"
| "bind (JObj kvs) = None"

fun column_value :: "sql_value \<Rightarrow> jsval" where
  "column_value SqlNull = JNull"
| "column_value (SqlNum n) = JNum n"
| "column_value (SqlText s) = JStr s"

definition column_names :: "sql_table \<Rightarrow> string list" where
  "column_names t = map fst (col_defs t)"

definition primary_key :: "sql_table \<Rightarrow> string list" where
  "primary_key t = map fst (filter (\<lambda>(name, ty, pk). pk) (col_defs t))"

definition conflicts :: "sql_table \<Rightarrow> sql_row \<Rightarrow> sql_row \<Rightarrow> bool" where
  "conflicts t r r' =
     (primary_key t \<noteq> [] \<and> list_all (\<lambda>c. r c \<noteq> SqlNull \<and> r c = r' c) (primary_key t))"

definition exec_create_table ::
  "Database \<Rightarrow> string \<Rightarrow> (string \<times> string \<times> bool) list \<Rightarrow> error + Database" where
  "exec_create_table d name defs =
     (if \<not> sql_identifier name \<or> defs = [] \<or> \<not> list_all (\<lambda>(n, ty, pk). sql_identifier n) defs
      then Inl EngineError
      else
        (case d name of
           Some t \<Rightarrow> Inr d
         | None \<Rightarrow>
             if \<not> distinct (map fst defs) then Inl EngineError
             else Inr (d(name \<mapsto> \<lparr>col_defs = defs, rows = []\<rparr>))))"

text \<open>The table a statement names, when the statement can be prepared for these columns.\<close>

definition prepare :: "Database \<Rightarrow> string \<Rightarrow> string list \<Rightarrow> sql_table option" where
  "prepare d name cols =
     (case d name of
        None \<Rightarrow> None
      | Some t \<Rightarrow>
          if sql_identifier name \<and> list_all (\<lambda>c. sql_identifier c \<and> c \<in> set (column_names t)) cols
          then Some t else None)"

definition new_row :: "(string \<times> sql_value) list \<Rightarrow> sql_row" where
  "new_row assignments = fold (\<lambda>(c, v) r. r(c := v)) assignments (\<lambda>c. SqlNull)"

definition run_insert_or_replace ::
  "Database \<Rightarrow> string \<Rightarrow> string list \<Rightarrow> jsval list \<Rightarrow> error + Database" where
  "run_insert_or_replace d name cols vals =
     (case prepare d name cols of
        None \<Rightarrow> Inl EngineError
      | Some t \<Rightarrow>
          if cols = [] then Inl EngineError
          else
            (case those (map bind vals) of
               None \<Rightarrow> Inl EngineError
             | Some bound \<Rightarrow>
                 (let r = new_row (zip cols bound)
                  in Inr (d(name \<mapsto>
                       t\<lparr>rows := filter (\<lambda>old. \<not> conflicts t old r) (rows t) @ [r]\<rparr>)))))"

text \<open>The object the engine returns for a row: one property for each selected column.\<close>

definition row_object :: "string list \<Rightarrow> sql_row \<Rightarrow> RowData" where
  "row_object cols r = (\<lambda>c. if c \<in> set cols then Some (column_value (r c)) else None)"

definition select_by_id ::
  "Database \<Rightarrow> string \<Rightarrow> string list \<Rightarrow> string \<Rightarrow> error + RowData option" where
  "select_by_id d name cols ident =
     (case prepare d name (''id'' # cols) of
        None \<Rightarrow> Inl EngineError
      | Some t \<Rightarrow>
          if cols = [] then Inl EngineError
          else Inr (map_option (row_object cols)
                      (find (\<lambda>r. r ''id'' = SqlText ident) (rows t))))"

definition select_all :: "Database \<Rightarrow> string \<Rightarrow> string list \<Rightarrow> error + RowData list" where
  "select_all d name cols =
     (case prepare d name cols of
        None \<Rightarrow> Inl EngineError
      | Some t \<Rightarrow>
          if cols = [] then Inl EngineError
          else Inr (map (row_object cols) (rows t)))"

text \<open>
  \<^verbatim>\<open>LIKE\<close>: in the pattern \<^verbatim>\<open>%\<close> stands for any run of characters and \<^verbatim>\<open>_\<close> for any one
  character; letters compare without regard to case.
\<close>

definition lower :: "char \<Rightarrow> char" where
  "lower c =
     (let n = (of_char c :: nat) in if 65 \<le> n \<and> n \<le> 90 then char_of (n + 32) else c)"

fun like :: "string \<Rightarrow> string \<Rightarrow> bool" where
  "like [] [] = True"
| "like [] (c # cs) = False"
| "like (p # ps) [] = (p = CHR ''%'' \<and> like ps [])"
| "like (p # ps) (c # cs) =
     (if p = CHR ''%'' then like ps (c # cs) \<or> like (p # ps) cs
      else if p = CHR ''_'' then like ps cs
      else lower p = lower c \<and> like ps cs)"

definition select_like ::
  "Database \<Rightarrow> string \<Rightarrow> string list \<Rightarrow> string \<Rightarrow> error + RowData list" where
  "select_like d name cols pattern =
     (case prepare d name (''id'' # cols) of
        None \<Rightarrow> Inl EngineError
      | Some t \<Rightarrow>
          if cols = [] then Inl EngineError
          else Inr (map (row_object cols)
                      (filter (\<lambda>r. case r ''id'' of SqlText s \<Rightarrow> like pattern s | _ \<Rightarrow> False)
                         (rows t))))"

text \<open>Both deletions return the database and the number of rows removed.\<close>

definition run_delete_by_id ::
  "Database \<Rightarrow> string \<Rightarrow> string \<Rightarrow> error + Database \<times> nat" where
  "run_delete_by_id d name ident =
     (case prepare d name [''id''] of
        None \<Rightarrow> Inl EngineError
      | Some t \<Rightarrow>
          Inr (d(name \<mapsto> t\<lparr>rows := filter (\<lambda>r. r ''id'' \<noteq> SqlText ident) (rows t)\<rparr>),
               length (filter (\<lambda>r. r ''id'' = SqlText ident) (rows t))))"

definition run_delete_all :: "Database \<Rightarrow> string \<Rightarrow> error + Database \<times> nat" where
  "run_delete_all d name =
     (case prepare d name [] of
        None \<Rightarrow> Inl EngineError
      | Some t \<Rightarrow> Inr (d(name \<mapsto> t\<lparr>rows := []\<rparr>), length (rows t)))"

section \<open>The store\<close>

text \<open>
  An instance of \<^verbatim>\<open>SquirrelDB\<close> owns its database connection, its schema registry
  (\<^verbatim>\<open>tableSchemas\<close>) and the list of its mirrors, which are instances themselves.  The
  mirrors of the model are distinct objects that form a tree.  The fields \<^verbatim>\<open>path\<close> and
  \<^verbatim>\<open>predefinedTables\<close> are read by no operation and are left out; \<^verbatim>\<open>snapshot()\<close> does
  nothing.

  A method that throws leaves the changes it made before; so every mutating operation
  returns its outcome together with the store afterwards.
\<close>

datatype store =
  Store (db: Database) (tableSchemas: "string \<rightharpoonup> TableSchema") (mirrors: "store list")

text \<open>
  The table name and the id arrive as values and are tested with \<^verbatim>\<open>typeof\<close>: below,
  the branch \<open>JStr\<close> of a case is the branch where \<^verbatim>\<open>typeof\<close> is \<^verbatim>\<open>"string"\<close>.

  The schema argument of \<^verbatim>\<open>initTable\<close> is tested by
  \<^verbatim>\<open>!schema || !schema.columns || !Array.isArray(schema.columns)\<close>; the three ways to
  fail the test are the first three constructors.
\<close>

datatype schema_arg =
    Schema_missing
  | Columns_missing
  | Columns_not_array
  | Schema_columns "ColumnDefinition list"

subsection \<open>createTableIfNotExists\<close>

text \<open>
  The method puts \<^verbatim>\<open>['id', 'string']\<close> in front of the caller's column array when no
  column is named \<^verbatim>\<open>id\<close> (changing the caller's object), creates the table and registers
  the schema.  It returns the database, the registry and the schema object as it now is.
\<close>

definition createTableIfNotExists ::
  "Database \<Rightarrow> (string \<rightharpoonup> TableSchema) \<Rightarrow> string \<Rightarrow> TableSchema \<Rightarrow>
     error + Database \<times> (string \<rightharpoonup> TableSchema) \<times> TableSchema" where
  "createTableIfNotExists d ts tableName schema =
     (let hasIdColumn = list_ex (\<lambda>(name, ty). name = ''id'') (columns schema);
          schema' = (if \<not> hasIdColumn
                     then schema\<lparr>columns := (''id'', Col_string) # columns schema\<rparr>
                     else schema);
          columnDefinitions =
            map (\<lambda>(name, ty). (name, getSQLiteType ty, name = ''id'')) (columns schema')
      in case exec_create_table d tableName columnDefinitions of
           Inl e \<Rightarrow> Inl e
         | Inr d' \<Rightarrow> Inr (d', ts(tableName \<mapsto> schema'), schema'))"

subsection \<open>validateRowData\<close>

text \<open>
  The loop over the columns of the schema.  \<^verbatim>\<open>JSON.stringify\<close> throws on cyclic values
  and big integers only, which the values of the model are not, so a \<^verbatim>\<open>json\<close> column
  accepts every value.
\<close>

fun validate_columns :: "ColumnDefinition list \<Rightarrow> RowData \<Rightarrow> error + unit" where
  "validate_columns [] data = Inr ()"
| "validate_columns ((columnName, columnType) # rest) data =
     (if data columnName \<noteq> None \<and> property data columnName \<noteq> JNull then
        (let v = property data columnName in
         case columnType of
           Col_string \<Rightarrow>
             if typeof v \<noteq> ''string'' then Inl (createError InvalidType)
             else validate_columns rest data
         | Col_number \<Rightarrow>
             if typeof v \<noteq> ''number'' then Inl (createError InvalidType)
             else validate_columns rest data
         | Col_boolean \<Rightarrow>
             if typeof v \<noteq> ''boolean'' then Inl (createError InvalidType)
             else validate_columns rest data
         | Col_json \<Rightarrow> validate_columns rest data)
      else validate_columns rest data)"

definition validateRowData ::
  "(string \<rightharpoonup> TableSchema) \<Rightarrow> string \<Rightarrow> RowData \<Rightarrow> error + unit" where
  "validateRowData ts tableName data =
     (case ts tableName of
        None \<Rightarrow> Inl (createError InvalidType)
      | Some schema \<Rightarrow>
          if \<not> truthy (property data ''id'') then Inl (createError MissingValue)
          else validate_columns (columns schema) data)"

subsection \<open>initTable\<close>

fun initTable :: "store \<Rightarrow> jsval \<Rightarrow> schema_arg \<Rightarrow> (error + unit) \<times> store"
and initTable_mirrors :: "store list \<Rightarrow> jsval \<Rightarrow> schema_arg \<Rightarrow> (error + unit) \<times> store list"
where
  "initTable (Store d ts ms) tableName schema =
     (case tableName of
        JStr name \<Rightarrow>
          (case schema of
             Schema_columns cols \<Rightarrow>
               (case createTableIfNotExists d ts name \<lparr>columns = cols\<rparr> of
                  Inl e \<Rightarrow> (Inl e, Store d ts ms)
                | Inr (d', ts', schema') \<Rightarrow>
                    (case initTable_mirrors ms tableName (Schema_columns (columns schema')) of
                       (r, ms') \<Rightarrow> (r, Store d' ts' ms')))
           | _ \<Rightarrow> (Inl (createError InvalidType), Store d ts ms))
      | _ \<Rightarrow> (Inl (createError InvalidType), Store d ts ms))"
| "initTable_mirrors [] tableName schema = (Inr (), [])"
| "initTable_mirrors (mirror # rest) tableName schema =
     (case initTable mirror tableName schema of
        (Inl e, mirror') \<Rightarrow> (Inl e, mirror' # rest)
      | (Inr u, mirror') \<Rightarrow>
          (case initTable_mirrors rest tableName schema of
             (r, rest') \<Rightarrow> (r, mirror' # rest')))"

subsection \<open>add\<close>

text \<open>The columns and values of the \<^verbatim>\<open>INSERT\<close> statement, as the loop of \<^verbatim>\<open>add\<close> collects them.\<close>

definition columnsToInsert :: "ColumnDefinition list \<Rightarrow> RowData \<Rightarrow> ColumnDefinition list" where
  "columnsToInsert cols data =
     filter (\<lambda>(columnName, columnType).
        data columnName \<noteq> None \<and> property data columnName \<noteq> JUndefined) cols"

definition insert_values :: "ColumnDefinition list \<Rightarrow> RowData \<Rightarrow> jsval list" where
  "insert_values cols data =
     map (\<lambda>(columnName, columnType). serializeValue (property data columnName) columnType)
       (columnsToInsert cols data)"

text \<open>
  What \<^verbatim>\<open>add\<close> does on its own instance: validation, then the statement; an error of
  the engine is caught and thrown again as \<^verbatim>\<open>InvalidType\<close>.  (Where the registry has no
  schema, \<^verbatim>\<open>validateRowData\<close> has thrown already.)
\<close>

definition add_local ::
  "Database \<Rightarrow> (string \<rightharpoonup> TableSchema) \<Rightarrow> string \<Rightarrow> RowData \<Rightarrow> error + Database" where
  "add_local d ts tableName data =
     (case validateRowData ts tableName data of
        Inl e \<Rightarrow> Inl e
      | Inr u \<Rightarrow>
          (case ts tableName of
             None \<Rightarrow> Inl (createError InvalidType)
           | Some schema \<Rightarrow>
               (case run_insert_or_replace d tableName
                       (map fst (columnsToInsert (columns schema) data))
                       (insert_values (columns schema) data) of
                  Inl e \<Rightarrow> Inl (createError InvalidType)
                | Inr d' \<Rightarrow> Inr d')))"

fun add :: "store \<Rightarrow> jsval \<Rightarrow> RowData \<Rightarrow> (error + RowData) \<times> store"
and add_mirrors :: "store list \<Rightarrow> jsval \<Rightarrow> RowData \<Rightarrow> (error + unit) \<times> store list"
where
  "add (Store d ts ms) tableName data =
     (case tableName of
        JStr name \<Rightarrow>
          (case add_local d ts name data of
             Inl e \<Rightarrow> (Inl e, Store d ts ms)
           | Inr d' \<Rightarrow>
               (case add_mirrors ms tableName data of
                  (Inl e, ms') \<Rightarrow> (Inl e, Store d' ts ms')
                | (Inr u, ms') \<Rightarrow> (Inr data, Store d' ts ms')))
      | _ \<Rightarrow> (Inl (createError InvalidType), Store d ts ms))"
| "add_mirrors [] tableName data = (Inr (), [])"
| "add_mirrors (mirror # rest) tableName data =
     (case add mirror tableName data of
        (Inl e, mirror') \<Rightarrow> (Inl e, mirror' # rest)
      | (Inr u, mirror') \<Rightarrow>
          (case add_mirrors rest tableName data of
             (r, rest') \<Rightarrow> (r, mirror' # rest')))"

subsection \<open>get, all, has, startsWith\<close>

text \<open>The loop that builds the result object from a row of the engine.\<close>

fun deserialize_row :: "ColumnDefinition list \<Rightarrow> RowData \<Rightarrow> RowData \<Rightarrow> error + RowData" where
  "deserialize_row [] row result = Inr result"
| "deserialize_row ((columnName, columnType) # rest) row result =
     (case row columnName of
        None \<Rightarrow> deserialize_row rest row result
      | Some v \<Rightarrow>
          (case deserializeValue v columnType of
             Inl e \<Rightarrow> Inl e
           | Inr w \<Rightarrow> deserialize_row rest row (result(columnName \<mapsto> w))))"

fun deserialize_rows :: "ColumnDefinition list \<Rightarrow> RowData list \<Rightarrow> error + RowData list" where
  "deserialize_rows cols [] = Inr []"
| "deserialize_rows cols (row # others) =
     (case deserialize_row cols row Map.empty of
        Inl e \<Rightarrow> Inl e
      | Inr result \<Rightarrow>
          (case deserialize_rows cols others of
             Inl e \<Rightarrow> Inl e
           | Inr results \<Rightarrow> Inr (result # results)))"

text \<open>The result \<open>None\<close> of \<open>get\<close> is \<^verbatim>\<open>null\<close>: no row has the id.\<close>

definition get :: "store \<Rightarrow> jsval \<Rightarrow> jsval \<Rightarrow> error + RowData option" where
  "get s tableName ident =
     (case tableName of
        JStr name \<Rightarrow>
          (case ident of
             JStr i \<Rightarrow>
               (case tableSchemas s name of
                  None \<Rightarrow> Inl (createError InvalidType)
                | Some schema \<Rightarrow>
                    (case select_by_id (db s) name (map fst (columns schema)) i of
                       Inl e \<Rightarrow> Inl e
                     | Inr None \<Rightarrow> Inr None
                     | Inr (Some row) \<Rightarrow>
                         (case deserialize_row (columns schema) row Map.empty of
                            Inl e \<Rightarrow> Inl e
                          | Inr result \<Rightarrow> Inr (Some result))))
           | _ \<Rightarrow> Inl (createError InvalidType))
      | _ \<Rightarrow> Inl (createError InvalidType))"

definition all :: "store \<Rightarrow> jsval \<Rightarrow> error + RowData list" where
  "all s tableName =
     (case tableName of
        JStr name \<Rightarrow>
          (case tableSchemas s name of
             None \<Rightarrow> Inl (createError InvalidType)
           | Some schema \<Rightarrow>
               (case select_all (db s) name (map fst (columns schema)) of
                  Inl e \<Rightarrow> Inl e
                | Inr found \<Rightarrow> deserialize_rows (columns schema) found))
      | _ \<Rightarrow> Inl (createError InvalidType))"

definition has :: "store \<Rightarrow> jsval \<Rightarrow> jsval \<Rightarrow> error + bool" where
  "has s tableName ident =
     (case get s tableName ident of
        Inl e \<Rightarrow> Inl e
      | Inr r \<Rightarrow> Inr (r \<noteq> None))"

definition startsWith :: "store \<Rightarrow> jsval \<Rightarrow> jsval \<Rightarrow> error + RowData list" where
  "startsWith s tableName query =
     (case tableName of
        JStr name \<Rightarrow>
          (case query of
             JStr q \<Rightarrow>
               (case tableSchemas s name of
                  None \<Rightarrow> Inl (createError InvalidType)
                | Some schema \<Rightarrow>
                    (case select_like (db s) name (map fst (columns schema)) (q @ ''%'') of
                       Inl e \<Rightarrow> Inl e
                     | Inr found \<Rightarrow> deserialize_rows (columns schema) found))
           | _ \<Rightarrow> Inl (createError InvalidType))
      | _ \<Rightarrow> Inl (createError InvalidType))"

subsection \<open>delete, deleteAll\<close>

fun delete :: "store \<Rightarrow> jsval \<Rightarrow> jsval \<Rightarrow> (error + nat) \<times> store"
and delete_mirrors :: "store list \<Rightarrow> jsval \<Rightarrow> jsval \<Rightarrow> (error + unit) \<times> store list"
where
  "delete (Store d ts ms) tableName ident =
     (case tableName of
        JStr name \<Rightarrow>
          (case ident of
             JStr i \<Rightarrow>
               (case run_delete_by_id d name i of
                  Inl e \<Rightarrow> (Inl e, Store d ts ms)
                | Inr (d', changes) \<Rightarrow>
                    (case delete_mirrors ms tableName ident of
                       (Inl e, ms') \<Rightarrow> (Inl e, Store d' ts ms')
                     | (Inr u, ms') \<Rightarrow> (Inr (if changes > 0 then 1 else 0), Store d' ts ms')))
           | _ \<Rightarrow> (Inl (createError InvalidType), Store d ts ms))
      | _ \<Rightarrow> (Inl (createError InvalidType), Store d ts ms))"
| "delete_mirrors [] tableName ident = (Inr (), [])"
| "delete_mirrors (mirror # rest) tableName ident =
     (case delete mirror tableName ident of
        (Inl e, mirror') \<Rightarrow> (Inl e, mirror' # rest)
      | (Inr u, mirror') \<Rightarrow>
          (case delete_mirrors rest tableName ident of
             (r, rest') \<Rightarrow> (r, mirror' # rest')))"

fun deleteAll :: "store \<Rightarrow> jsval \<Rightarrow> (error + nat) \<times> store"
and deleteAll_mirrors :: "store list \<Rightarrow> jsval \<Rightarrow> (error + unit) \<times> store list"
where
  "deleteAll (Store d ts ms) tableName =
     (case tableName of
        JStr name \<Rightarrow>
          (case run_delete_all d name of
             Inl e \<Rightarrow> (Inl e, Store d ts ms)
           | Inr (d', changes) \<Rightarrow>
               (case deleteAll_mirrors ms tableName of
                  (Inl e, ms') \<Rightarrow> (Inl e, Store d' ts ms')
                | (Inr u, ms') \<Rightarrow> (Inr changes, Store d' ts ms')))
      | _ \<Rightarrow> (Inl (createError InvalidType), Store d ts ms))"
| "deleteAll_mirrors [] tableName = (Inr (), [])"
| "deleteAll_mirrors (mirror # rest) tableName =
     (case deleteAll mirror tableName of
        (Inl e, mirror') \<Rightarrow> (Inl e, mirror' # rest)
      | (Inr u, mirror') \<Rightarrow>
          (case deleteAll_mirrors rest tableName of
             (r, rest') \<Rightarrow> (r, mirror' # rest')))"

subsection \<open>increment\<close>

text \<open>
  The record that \<^verbatim>\<open>increment\<close> reads is the object \<^verbatim>\<open>get\<close> builds from the literal \<^verbatim>\<open>{}\<close>,
  so \<^verbatim>\<open>record[column]\<close> for a name that is no property of the record itself is looked up
  in \<^verbatim>\<open>Object.prototype\<close>.  The properties there are functions (and, under \<^verbatim>\<open>__proto__\<close>,
  the prototype object): truthy values whose \<^verbatim>\<open>typeof\<close> is not \<^verbatim>\<open>number\<close>.
\<close>

definition Object_prototype :: "string list" where
  "Object_prototype =
     [''constructor'', ''hasOwnProperty'', ''isPrototypeOf'', ''propertyIsEnumerable'',
      ''toLocaleString'', ''toString'', ''valueOf'', ''__proto__'',
      ''__defineGetter__'', ''__defineSetter__'', ''__lookupGetter__'', ''__lookupSetter__'']"

definition increment ::
  "store \<Rightarrow> jsval \<Rightarrow> jsval \<Rightarrow> string \<Rightarrow> jsnum \<Rightarrow> (error + jsnum) \<times> store" where
  "increment s tableName ident column delta =
     (case tableName of
        JStr name \<Rightarrow>
          (case get s tableName ident of
             Inl e \<Rightarrow> (Inl e, s)
           | Inr None \<Rightarrow> (Inl (createError MissingValue), s)
           | Inr (Some record) \<Rightarrow>
               (if record column = None \<and> column \<in> set Object_prototype then
                  (Inl (createError InvalidType), s)
                else
                  (let currentValue =
                         (if truthy (property record column) then property record column
                          else JNum (Fin 0))
                   in case currentValue of
                        JNum n \<Rightarrow>
                          (let newValue = num_add n delta in
                           case add s tableName (record(column \<mapsto> JNum newValue)) of
                             (Inl e, s') \<Rightarrow> (Inl e, s')
                           | (Inr u, s') \<Rightarrow> (Inr newValue, s'))
                      | _ \<Rightarrow> (Inl (createError InvalidType), s))))
      | _ \<Rightarrow> (Inl (createError InvalidType), s))"

section \<open>Replication, in the words of the specification\<close>

text \<open>
  ``Replayed against every attached mirror, in the order mirrors were attached, awaiting
  each before proceeding to the next'': the call is made on the first mirror; when it
  fails, the failure is the outcome and the mirrors after it are not called; otherwise
  the replay goes on with the rest.  The four loops of the code are compared with this
  definition below.
\<close>

fun replay :: "(store \<Rightarrow> (error + 'a) \<times> store) \<Rightarrow> store list \<Rightarrow> (error + unit) \<times> store list" where
  "replay call [] = (Inr (), [])"
| "replay call (mirror # rest) =
     (case fst (call mirror) of
        Inl e \<Rightarrow> (Inl e, snd (call mirror) # rest)
      | Inr v \<Rightarrow> (fst (replay call rest), snd (call mirror) # snd (replay call rest)))"

section \<open>What is written and what is read\<close>

text \<open>
  The table the engine holds for a registered schema, as \<^verbatim>\<open>createTableIfNotExists\<close> creates
  it: one column per declared column, of the engine type of its declared type, the column
  \<^verbatim>\<open>id\<close> the primary key.
\<close>

definition table_matches :: "Database \<Rightarrow> string \<Rightarrow> TableSchema \<Rightarrow> bool" where
  "table_matches d name schema =
     (case d name of
        None \<Rightarrow> False
      | Some t \<Rightarrow>
          sql_identifier name
          \<and> col_defs t = map (\<lambda>(n, ty). (n, getSQLiteType ty, n = ''id'')) (columns schema)
          \<and> distinct (map fst (columns schema))
          \<and> list_all (\<lambda>(n, ty). sql_identifier n) (columns schema)
          \<and> list_ex (\<lambda>(n, ty). n = ''id'') (columns schema))"

text \<open>What the engine holds for a value written to a column, and what is read from it.\<close>

definition stored :: "ColumnType \<Rightarrow> jsval \<Rightarrow> sql_value" where
  "stored ty v = (case bind (serializeValue v ty) of None \<Rightarrow> SqlNull | Some p \<Rightarrow> p)"

definition read_back :: "ColumnType \<Rightarrow> sql_value \<Rightarrow> jsval" where
  "read_back ty p = (case deserializeValue (column_value p) ty of Inl e \<Rightarrow> JNull | Inr w \<Rightarrow> w)"


definition written_row :: "ColumnDefinition list \<Rightarrow> RowData \<Rightarrow> sql_row" where
  "written_row cols r =
     new_row (map (\<lambda>(c, ty). (c, stored ty (property r c))) (columnsToInsert cols r))"

definition insert_row :: "sql_table \<Rightarrow> sql_row \<Rightarrow> sql_table" where
  "insert_row t row = t\<lparr>rows := filter (\<lambda>old. \<not> conflicts t old row) (rows t) @ [row]\<rparr>"

text \<open>The record that \<open>get\<close> builds from a row, for a schema with distinct column names.\<close>

definition record_of_row :: "ColumnDefinition list \<Rightarrow> sql_row \<Rightarrow> RowData" where
  "record_of_row cols row =
     (\<lambda>c. case map_of cols c of None \<Rightarrow> None | Some ty \<Rightarrow> Some (read_back ty (row c)))"

text \<open>A value that passed validation for its column can be bound, and what is stored can be read.\<close>

definition accepted :: "ColumnType \<Rightarrow> jsval \<Rightarrow> bool" where
  "accepted ty v =
     (v = JNull \<or>
      (case ty of
         Col_string \<Rightarrow> typeof v = ''string''
       | Col_number \<Rightarrow> typeof v = ''number''
       | Col_boolean \<Rightarrow> typeof v = ''boolean''
       | Col_json \<Rightarrow> True))"


section \<open>Stores for the examples\<close>

text \<open>
  The store of the examples: the table \<^verbatim>\<open>t\<close> as \<^verbatim>\<open>initTable\<close> registers and creates it for
  the caller's columns \<^verbatim>\<open>age: number\<close>, \<^verbatim>\<open>flag: json\<close>, with no rows and no mirrors.
\<close>

definition example_store :: store where
  "example_store =
     Store
       [''t'' \<mapsto> \<lparr>col_defs = [(''id'', ''TEXT'', True), (''age'', ''REAL'', False),
                                (''flag'', ''TEXT'', False)],
                   rows = []\<rparr>]
       [''t'' \<mapsto> \<lparr>columns = [(''id'', Col_string), (''age'', Col_number), (''flag'', Col_json)]\<rparr>]
       []"

text \<open>The error of an outcome, if it is one.\<close>

definition failure :: "error + 'a \<Rightarrow> error option" where
  "failure r = (case r of Inl e \<Rightarrow> Some e | Inr v \<Rightarrow> None)"

text \<open>
  A table registered with a \<^verbatim>\<open>string\<close> column, one record added, and the table registered
  again with the column declared \<^verbatim>\<open>json\<close>: the stored text is not JSON.
\<close>

definition reregistered_store :: store where
  "reregistered_store =
     snd (initTable
       (snd (add
         (snd (initTable (Store Map.empty Map.empty []) (JStr ''t'')
                (Schema_columns [(''doc'', Col_string)])))
         (JStr ''t'') [''id'' \<mapsto> JStr ''x'', ''doc'' \<mapsto> JStr ''{bad'']))
       (JStr ''t'') (Schema_columns [(''doc'', Col_json)]))"


definition badly_mirrored_store :: store where
  "badly_mirrored_store =
     Store (db example_store) (tableSchemas example_store)
       [example_store, Store Map.empty Map.empty [], example_store]"

definition typed_record :: RowData where
  "typed_record =
     [''id'' \<mapsto> JStr ''x'', ''age'' \<mapsto> JNum (Fin 30),
      ''flag'' \<mapsto> JObj [(''role'', JStr ''admin''), (''on'', JBool True)]]"


text \<open>The example store after the record of the example has been added.\<close>

definition stored_example :: store where
  "stored_example = snd (add example_store (JStr ''t'') typed_record)"




section \<open>Basic facts\<close>

lemma typeof_string: "(typeof v = ''string'') = (\<exists>s. v = JStr s)"
  by (cases v) simp_all

lemma typeof_number: "(typeof v = ''number'') = (\<exists>n. v = JNum n)"
  by (cases v) simp_all

lemma typeof_boolean: "(typeof v = ''boolean'') = (\<exists>b. v = JBool b)"
  by (cases v) simp_all

lemma exec_create_table_error: "exec_create_table d name defs = Inl e \<Longrightarrow> e = EngineError"
  by (auto simp: exec_create_table_def split: if_splits option.splits)

lemma createTableIfNotExists_error:
  "createTableIfNotExists d ts name schema = Inl e \<Longrightarrow> e = EngineError"
  by (auto simp: createTableIfNotExists_def Let_def split: sum.splits
      dest: exec_create_table_error)

lemma createTableIfNotExists_registers:
  "createTableIfNotExists d ts name \<lparr>columns = cols\<rparr> = Inr (d', ts', schema') \<Longrightarrow>
     schema' = \<lparr>columns = (if list_ex (\<lambda>(n, ty). n = ''id'') cols then cols
                            else (''id'', Col_string) # cols)\<rparr> \<and>
     ts' = ts(name \<mapsto> schema')"
  by (auto simp: createTableIfNotExists_def Let_def split: sum.splits if_splits)

lemma createTableIfNotExists_empty_name:
  "createTableIfNotExists d ts [] schema = Inl EngineError"
  by (simp add: createTableIfNotExists_def Let_def exec_create_table_def sql_identifier_def)

lemma deserializeValue_error:
  "deserializeValue v ty = Inl e \<Longrightarrow> e = SyntaxError \<and> ty = Col_json \<and> JSON_parse v = None"
  by (auto simp: deserializeValue_def split: if_splits ColumnType.splits option.splits)

lemma deserialize_row_error:
  "deserialize_row cols row result = Inl e \<Longrightarrow> e = SyntaxError"
  by (induction cols row result rule: deserialize_row.induct)
    (auto split: option.splits sum.splits dest: deserializeValue_error)

lemma select_by_id_error: "select_by_id d name cols i = Inl e \<Longrightarrow> e = EngineError"
  by (auto simp: select_by_id_def split: option.splits if_splits)

lemma get_error:
  "get s tableName ident = Inl e \<Longrightarrow>
     e = createError InvalidType \<or> e = EngineError \<or> e = SyntaxError"
  by (auto simp: get_def split: jsval.splits option.splits sum.splits
      dest: select_by_id_error deserialize_row_error)

subsection \<open>The mutating operations, outcome and store apart\<close>

lemma initTable_unfold:
  "initTable (Store d ts ms) (JStr name) (Schema_columns cols) =
     (case createTableIfNotExists d ts name \<lparr>columns = cols\<rparr> of
        Inl e \<Rightarrow> (Inl e, Store d ts ms)
      | Inr (d', ts', schema') \<Rightarrow>
          (fst (initTable_mirrors ms (JStr name) (Schema_columns (columns schema'))),
           Store d' ts'
             (snd (initTable_mirrors ms (JStr name) (Schema_columns (columns schema'))))))"
  by (simp split: sum.splits prod.splits)

lemma initTable_rejects:
  "typeof tableName \<noteq> ''string'' \<or> (\<forall>cols. schema \<noteq> Schema_columns cols) \<Longrightarrow>
     initTable s tableName schema = (Inl (createError InvalidType), s)"
  by (cases s; cases tableName; cases schema) auto

lemma initTable_mirrors_unfold:
  "initTable_mirrors [] tableName schema = (Inr (), [])"
  "initTable_mirrors (mirror # rest) tableName schema =
     (case fst (initTable mirror tableName schema) of
        Inl e \<Rightarrow> (Inl e, snd (initTable mirror tableName schema) # rest)
      | Inr u \<Rightarrow>
          (fst (initTable_mirrors rest tableName schema),
           snd (initTable mirror tableName schema) # snd (initTable_mirrors rest tableName schema)))"
  by (simp_all split: sum.splits prod.splits)

declare initTable.simps [simp del] initTable_mirrors.simps [simp del]

lemma initTable_error_kind:
  "typeof tableName = ''string'' \<Longrightarrow> \<exists>cols. schema = Schema_columns cols \<Longrightarrow>
     fst (initTable s tableName schema) \<noteq> Inl (SquirrelError k)"
  "typeof tableName = ''string'' \<Longrightarrow> \<exists>cols. schema = Schema_columns cols \<Longrightarrow>
     fst (initTable_mirrors ms tableName schema) \<noteq> Inl (SquirrelError k)"
proof (induction s tableName schema and ms tableName schema
    rule: initTable_initTable_mirrors.induct)
  case (1 d ts ms tableName schema)
  from "1.prems" obtain name cols
    where eqs: "tableName = JStr name" "schema = Schema_columns cols"
    by (auto simp: typeof_string)
  show ?case
  proof (cases "createTableIfNotExists d ts name \<lparr>columns = cols\<rparr>")
    case (Inl e)
    then show ?thesis
      using createTableIfNotExists_error [OF Inl] by (simp add: eqs initTable_unfold)
  next
    case (Inr x)
    obtain d' ts' schema' where x: "x = (d', ts', schema')"
      by (cases x) auto
    have "fst (initTable_mirrors ms tableName (Schema_columns (columns schema')))
            \<noteq> Inl (SquirrelError k)"
      using "1.IH" [OF eqs(1) eqs(2) Inr [unfolded x] refl refl] "1.prems"(1) by simp
    then show ?thesis
      using Inr x by (simp add: eqs initTable_unfold)
  qed
next
  case 2
  then show ?case by (simp add: initTable_mirrors_unfold)
next
  case (3 mirror rest tableName schema)
  show ?case
  proof (cases "fst (initTable mirror tableName schema)")
    case (Inl e)
    then show ?thesis
      using "3.IH"(1) [OF "3.prems"] by (auto simp: initTable_mirrors_unfold)
  next
    case (Inr u)
    then show ?thesis
      using "3.IH"(2) [OF prod.collapse Inr "3.prems"]
      by (simp add: initTable_mirrors_unfold)
  qed
qed

lemma initTable_registers:
  assumes "fst (initTable s (JStr name) (Schema_columns cols)) = Inr ()"
  shows "tableSchemas (snd (initTable s (JStr name) (Schema_columns cols))) name =
           Some \<lparr>columns = (if list_ex (\<lambda>(n, ty). n = ''id'') cols then cols
                            else (''id'', Col_string) # cols)\<rparr>"
proof -
  obtain d ts ms where s: "s = Store d ts ms" by (cases s) auto
  show ?thesis
  proof (cases "createTableIfNotExists d ts name \<lparr>columns = cols\<rparr>")
    case (Inl e)
    with assms show ?thesis by (simp add: s initTable_unfold)
  next
    case (Inr x)
    obtain d' ts' schema' where x: "x = (d', ts', schema')" by (cases x) auto
    from createTableIfNotExists_registers [OF Inr [unfolded x]] show ?thesis
      using Inr x by (simp add: s initTable_unfold)
  qed
qed

lemma initTable_empty_name:
  "fst (initTable s (JStr []) schema) \<noteq> Inr () \<and> snd (initTable s (JStr []) schema) = s"
proof (cases "\<exists>cols. schema = Schema_columns cols")
  case True
  then obtain cols where "schema = Schema_columns cols" by blast
  then show ?thesis
    by (cases s) (simp add: initTable_unfold createTableIfNotExists_empty_name)
next
  case False
  then show ?thesis by (simp add: initTable_rejects)
qed

lemma add_unfold:
  "add (Store d ts ms) (JStr name) data =
     (case add_local d ts name data of
        Inl e \<Rightarrow> (Inl e, Store d ts ms)
      | Inr d' \<Rightarrow>
          (case fst (add_mirrors ms (JStr name) data) of
             Inl e \<Rightarrow> (Inl e, Store d' ts (snd (add_mirrors ms (JStr name) data)))
           | Inr u \<Rightarrow> (Inr data, Store d' ts (snd (add_mirrors ms (JStr name) data)))))"
  by (simp split: sum.splits prod.splits)

lemma add_rejects:
  "typeof tableName \<noteq> ''string'' \<Longrightarrow> add s tableName data = (Inl (createError InvalidType), s)"
  by (cases s; cases tableName) auto


declare add.simps [simp del] add_mirrors.simps [simp del]

lemma delete_unfold:
  "delete (Store d ts ms) (JStr name) (JStr i) =
     (case run_delete_by_id d name i of
        Inl e \<Rightarrow> (Inl e, Store d ts ms)
      | Inr (d', changes) \<Rightarrow>
          (case fst (delete_mirrors ms (JStr name) (JStr i)) of
             Inl e \<Rightarrow> (Inl e, Store d' ts (snd (delete_mirrors ms (JStr name) (JStr i))))
           | Inr u \<Rightarrow> (Inr (if changes > 0 then 1 else 0),
                        Store d' ts (snd (delete_mirrors ms (JStr name) (JStr i))))))"
  by (simp split: sum.splits prod.splits)

lemma delete_rejects:
  "typeof tableName \<noteq> ''string'' \<or> typeof ident \<noteq> ''string'' \<Longrightarrow>
     delete s tableName ident = (Inl (createError InvalidType), s)"
  by (cases s; cases tableName; cases ident) auto

lemma delete_mirrors_unfold:
  "delete_mirrors [] tableName ident = (Inr (), [])"
  "delete_mirrors (mirror # rest) tableName ident =
     (case fst (delete mirror tableName ident) of
        Inl e \<Rightarrow> (Inl e, snd (delete mirror tableName ident) # rest)
      | Inr u \<Rightarrow>
          (fst (delete_mirrors rest tableName ident),
           snd (delete mirror tableName ident) # snd (delete_mirrors rest tableName ident)))"
  by (simp_all split: sum.splits prod.splits)

declare delete.simps [simp del] delete_mirrors.simps [simp del]

lemma deleteAll_unfold:
  "deleteAll (Store d ts ms) (JStr name) =
     (case run_delete_all d name of
        Inl e \<Rightarrow> (Inl e, Store d ts ms)
      | Inr (d', changes) \<Rightarrow>
          (case fst (deleteAll_mirrors ms (JStr name)) of
             Inl e \<Rightarrow> (Inl e, Store d' ts (snd (deleteAll_mirrors ms (JStr name))))
           | Inr u \<Rightarrow> (Inr changes, Store d' ts (snd (deleteAll_mirrors ms (JStr name))))))"
  by (simp split: sum.splits prod.splits)

lemma deleteAll_rejects:
  "typeof tableName \<noteq> ''string'' \<Longrightarrow>
     deleteAll s tableName = (Inl (createError InvalidType), s)"
  by (cases s; cases tableName) auto

lemma deleteAll_mirrors_unfold:
  "deleteAll_mirrors [] tableName = (Inr (), [])"
  "deleteAll_mirrors (mirror # rest) tableName =
     (case fst (deleteAll mirror tableName) of
        Inl e \<Rightarrow> (Inl e, snd (deleteAll mirror tableName) # rest)
      | Inr u \<Rightarrow>
          (fst (deleteAll_mirrors rest tableName),
           snd (deleteAll mirror tableName) # snd (deleteAll_mirrors rest tableName)))"
  by (simp_all split: sum.splits prod.splits)

declare deleteAll.simps [simp del] deleteAll_mirrors.simps [simp del]

lemma run_delete_by_id_error: "run_delete_by_id d name i = Inl e \<Longrightarrow> e = EngineError"
  by (auto simp: run_delete_by_id_def split: option.splits)

lemma run_delete_all_error: "run_delete_all d name = Inl e \<Longrightarrow> e = EngineError"
  by (auto simp: run_delete_all_def split: option.splits)

lemma delete_error_kind:
  "typeof tableName = ''string'' \<Longrightarrow> typeof ident = ''string'' \<Longrightarrow>
     fst (delete s tableName ident) \<noteq> Inl (SquirrelError k) \<and>
     fst (delete s tableName ident) \<noteq> Inl SyntaxError"
  "typeof tableName = ''string'' \<Longrightarrow> typeof ident = ''string'' \<Longrightarrow>
     fst (delete_mirrors ms tableName ident) \<noteq> Inl (SquirrelError k) \<and>
     fst (delete_mirrors ms tableName ident) \<noteq> Inl SyntaxError"
proof (induction s tableName ident and ms tableName ident rule: delete_delete_mirrors.induct)
  case (1 d ts ms tableName ident)
  from "1.prems" obtain name i where eqs: "tableName = JStr name" "ident = JStr i"
    by (auto simp: typeof_string)
  show ?case
  proof (cases "run_delete_by_id d name i")
    case (Inl e)
    then show ?thesis
      using run_delete_by_id_error [OF Inl] by (simp add: eqs delete_unfold)
  next
    case (Inr x)
    obtain d' changes where x: "x = (d', changes)" by (cases x) auto
    have "fst (delete_mirrors ms tableName ident) \<noteq> Inl (SquirrelError k) \<and>
          fst (delete_mirrors ms tableName ident) \<noteq> Inl SyntaxError"
      using "1.IH" [OF eqs(1) eqs(2) Inr [unfolded x] refl "1.prems"] by simp
    then show ?thesis
      using Inr x by (auto simp: eqs delete_unfold split: sum.splits)
  qed
next
  case 2
  then show ?case by (simp add: delete_mirrors_unfold)
next
  case (3 mirror rest tableName ident)
  show ?case
  proof (cases "fst (delete mirror tableName ident)")
    case (Inl e)
    then show ?thesis
      using "3.IH"(1) [OF "3.prems"] by (auto simp: delete_mirrors_unfold)
  next
    case (Inr u)
    then show ?thesis
      using "3.IH"(2) [OF prod.collapse Inr "3.prems"]
      by (simp add: delete_mirrors_unfold)
  qed
qed

lemma deleteAll_error_kind:
  "typeof tableName = ''string'' \<Longrightarrow>
     fst (deleteAll s tableName) \<noteq> Inl (SquirrelError k) \<and>
     fst (deleteAll s tableName) \<noteq> Inl SyntaxError"
  "typeof tableName = ''string'' \<Longrightarrow>
     fst (deleteAll_mirrors ms tableName) \<noteq> Inl (SquirrelError k) \<and>
     fst (deleteAll_mirrors ms tableName) \<noteq> Inl SyntaxError"
proof (induction s tableName and ms tableName rule: deleteAll_deleteAll_mirrors.induct)
  case (1 d ts ms tableName)
  from "1.prems" obtain name where eqs: "tableName = JStr name"
    by (auto simp: typeof_string)
  show ?case
  proof (cases "run_delete_all d name")
    case (Inl e)
    then show ?thesis
      using run_delete_all_error [OF Inl] by (simp add: eqs deleteAll_unfold)
  next
    case (Inr x)
    obtain d' changes where x: "x = (d', changes)" by (cases x) auto
    have "fst (deleteAll_mirrors ms tableName) \<noteq> Inl (SquirrelError k) \<and>
          fst (deleteAll_mirrors ms tableName) \<noteq> Inl SyntaxError"
      using "1.IH" [OF eqs(1) Inr [unfolded x] refl "1.prems"] by simp
    then show ?thesis
      using Inr x by (auto simp: eqs deleteAll_unfold split: sum.splits)
  qed
next
  case 2
  then show ?case by (simp add: deleteAll_mirrors_unfold)
next
  case (3 mirror rest tableName)
  show ?case
  proof (cases "fst (deleteAll mirror tableName)")
    case (Inl e)
    then show ?thesis
      using "3.IH"(1) [OF "3.prems"] by (auto simp: deleteAll_mirrors_unfold)
  next
    case (Inr u)
    then show ?thesis
      using "3.IH"(2) [OF prod.collapse Inr "3.prems"]
      by (simp add: deleteAll_mirrors_unfold)
  qed
qed

lemma delete_error:
  assumes "fst (delete s (JStr name) (JStr i)) = Inl e"
  shows "e = EngineError"
  using delete_error_kind(1) [of "JStr name" "JStr i" s] assms by (cases e) auto

lemma deleteAll_error:
  assumes "fst (deleteAll s (JStr name)) = Inl e"
  shows "e = EngineError"
  using deleteAll_error_kind(1) [of "JStr name" s] assms by (cases e) auto

lemma delete_registry:
  "fst (delete (Store d ts ms) tableName ident) = fst (delete (Store d ts' ms) tableName ident)
   \<and> db (snd (delete (Store d ts ms) tableName ident))
       = db (snd (delete (Store d ts' ms) tableName ident))
   \<and> mirrors (snd (delete (Store d ts ms) tableName ident))
       = mirrors (snd (delete (Store d ts' ms) tableName ident))
   \<and> tableSchemas (snd (delete (Store d ts ms) tableName ident)) = ts"
proof (cases "typeof tableName = ''string'' \<and> typeof ident = ''string''")
  case True
  then obtain name i where "tableName = JStr name" "ident = JStr i"
    by (auto simp: typeof_string)
  then show ?thesis
    by (simp add: delete_unfold split: sum.splits prod.splits)
next
  case False
  then show ?thesis by (auto simp: delete_rejects)
qed

lemma deleteAll_registry:
  "fst (deleteAll (Store d ts ms) tableName) = fst (deleteAll (Store d ts' ms) tableName)
   \<and> db (snd (deleteAll (Store d ts ms) tableName))
       = db (snd (deleteAll (Store d ts' ms) tableName))
   \<and> mirrors (snd (deleteAll (Store d ts ms) tableName))
       = mirrors (snd (deleteAll (Store d ts' ms) tableName))
   \<and> tableSchemas (snd (deleteAll (Store d ts ms) tableName)) = ts"
proof (cases "typeof tableName = ''string''")
  case True
  then obtain name where "tableName = JStr name"
    by (auto simp: typeof_string)
  then show ?thesis
    by (simp add: deleteAll_unfold split: sum.splits prod.splits)
next
  case False
  then show ?thesis by (auto simp: deleteAll_rejects)
qed




subsection \<open>The loops over the mirrors are replays\<close>



lemma replay_stops:
  "fst (replay call ms) = Inl e \<Longrightarrow>
     \<exists>k < length ms.
        (\<forall>j < k. failure (fst (call (ms ! j))) = None)
        \<and> fst (call (ms ! k)) = Inl e
        \<and> snd (replay call ms) = map (\<lambda>m. snd (call m)) (take (Suc k) ms) @ drop (Suc k) ms"
proof (induction ms)
  case Nil
  then show ?case by simp
next
  case (Cons m ms)
  show ?case
  proof (cases "fst (call m)")
    case (Inl e')
    with Cons.prems have "e' = e" by simp
    with Inl show ?thesis by (intro exI [of _ 0]) simp
  next
    case (Inr v)
    with Cons.prems have "fst (replay call ms) = Inl e" by simp
    from Cons.IH [OF this] obtain k where k: "k < length ms"
      "\<forall>j < k. failure (fst (call (ms ! j))) = None"
      "fst (call (ms ! k)) = Inl e"
      "snd (replay call ms) = map (\<lambda>m. snd (call m)) (take (Suc k) ms) @ drop (Suc k) ms"
      by blast
    have "\<forall>j < Suc k. failure (fst (call ((m # ms) ! j))) = None"
      using k(2) Inr by (auto simp: less_Suc_eq_0_disj failure_def)
    then show ?thesis
      using k Inr by (intro exI [of _ "Suc k"]) simp
  qed
qed













section \<open>Reading back what \<open>JSON.stringify\<close> wrote\<close>

lemma is_digit_digit_char: "d < 10 \<Longrightarrow> is_digit (digit_char d)"
  by (simp add: is_digit_def digit_char_def)

lemma digit_val_digit_char: "d < 10 \<Longrightarrow> digit_val (digit_char d) = d"
  by (simp add: digit_val_def digit_char_def)

lemma read_digits_show_nat:
  "read_digits acc (show_nat n @ r) = read_digits (acc * 10 ^ length (show_nat n) + n) r"
proof (induction n arbitrary: acc r rule: show_nat.induct)
  case (1 n)
  show ?case
  proof (cases "n < 10")
    case True
    then show ?thesis
      by (simp add: show_nat.simps [of n] is_digit_digit_char digit_val_digit_char)
  next
    case False
    have d: "n mod 10 < 10" by simp
    have "read_digits acc (show_nat n @ r)
            = read_digits acc (show_nat (n div 10) @ (digit_char (n mod 10) # r))"
      using False by (simp add: show_nat.simps [of n])
    also have "\<dots> = read_digits (acc * 10 ^ length (show_nat (n div 10)) + n div 10)
                        (digit_char (n mod 10) # r)"
      using "1.IH" [OF False] by simp
    also have "\<dots> = read_digits
        ((acc * 10 ^ length (show_nat (n div 10)) + n div 10) * 10 + n mod 10) r"
      using d by (simp add: is_digit_digit_char digit_val_digit_char)
    also have "(acc * 10 ^ length (show_nat (n div 10)) + n div 10) * 10 + n mod 10
                 = acc * 10 ^ length (show_nat n) + n"
      using False by (simp add: show_nat.simps [of n] algebra_simps)
    finally show ?thesis .
  qed
qed

lemma read_digits_stop: "r = [] \<or> \<not> is_digit (hd r) \<Longrightarrow> read_digits acc r = (acc, r)"
  by (cases r) auto

lemma show_nat_nonempty: "show_nat n \<noteq> []"
  by (subst show_nat.simps) simp

lemma show_nat_hd:
  "\<exists>d cs. show_nat n = digit_char d # cs \<and> d < 10 \<and> (d = 0 \<longrightarrow> n = 0 \<and> cs = [])"
proof (induction n rule: show_nat.induct)
  case (1 n)
  show ?case
  proof (cases "n < 10")
    case True
    then show ?thesis by (subst show_nat.simps) auto
  next
    case False
    from "1.IH" [OF False] obtain d cs where
      h: "show_nat (n div 10) = digit_char d # cs" "d < 10" "d = 0 \<longrightarrow> n div 10 = 0 \<and> cs = []"
      by blast
    have "d \<noteq> 0" using h(3) False by auto
    then show ?thesis
      using False h by (subst show_nat.simps) auto
  qed
qed

lemma char_eq_code: "(c = d) = ((of_char c :: nat) = of_char d)"
  by simp

lemma digit_char_zero: "d < 10 \<Longrightarrow> (digit_char d = CHR ''0'') = (d = 0)"
  by (subst char_eq_code) (simp add: digit_char_def)

lemma parse_nat_show_nat:
  assumes "r = [] \<or> \<not> is_digit (hd r)"
  shows "parse_nat (show_nat n @ r) = Some (n, r)"
proof -
  obtain d cs where h: "show_nat n = digit_char d # cs" "d < 10" "d = 0 \<longrightarrow> n = 0 \<and> cs = []"
    using show_nat_hd by blast
  show ?thesis
  proof (cases "d = 0")
    case True
    then show ?thesis using h by (simp add: parse_nat_def digit_char_zero)
  next
    case False
    have "read_digits 0 (show_nat n @ r) = (n, r)"
      using read_digits_show_nat [of 0 n r] read_digits_stop [OF assms] by simp
    then show ?thesis
      using h False by (simp add: parse_nat_def digit_char_zero is_digit_digit_char)
  qed
qed

lemma show_nat_not_minus: "hd (show_nat n) \<noteq> CHR ''-''"
proof -
  obtain d cs where h: "show_nat n = digit_char d # cs" "d < 10"
    using show_nat_hd by blast
  have "digit_char d \<noteq> CHR ''-''"
    using h(2) by (subst char_eq_code) (simp add: digit_char_def)
  then show ?thesis using h by simp
qed

lemma parse_int_show_int:
  assumes "r = [] \<or> \<not> is_digit (hd r)"
  shows "parse_int (show_int i @ r) = Some (i, r)"
proof (cases "i < 0")
  case True
  then show ?thesis
    by (simp add: parse_int_def show_int_def parse_nat_show_nat [OF assms])
next
  case False
  obtain c cs where h: "show_nat (nat i) = c # cs"
    using show_nat_nonempty [of "nat i"] by (cases "show_nat (nat i)") auto
  have "c \<noteq> CHR ''-''" using show_nat_not_minus [of "nat i"] h by simp
  moreover have "parse_nat (c # cs @ r) = Some (nat i, r)"
    using parse_nat_show_nat [OF assms, of "nat i"] h by simp
  ultimately show ?thesis
    using False h by (simp add: parse_int_def show_int_def)
qed

lemma hex_val_hex_char: "d < 16 \<Longrightarrow> hex_val (hex_char d) = Some d"
  by (auto simp: hex_val_def hex_char_def Let_def)

lemma hex4_control:
  assumes "(of_char c :: nat) < 32"
  shows "hex4 (CHR ''0'') (CHR ''0'') (hex_char (of_char c div 16)) (hex_char (of_char c mod 16))
           = Some c"
proof -
  have z: "hex_val (CHR ''0'') = Some 0" by (simp add: hex_val_def)
  have a: "hex_val (hex_char (of_char c div 16)) = Some (of_char c div 16)"
    using assms by (intro hex_val_hex_char) simp
  have b: "hex_val (hex_char (of_char c mod 16)) = Some (of_char c mod 16)"
    by (intro hex_val_hex_char) simp
  show ?thesis
    by (simp add: hex4_def z a b)
qed

lemma parse_chars_quote_char:
  "parse_chars (quote_char c @ rest) = cons_fst c (parse_chars rest)"
proof -
  consider (dq) "c = CHR 0x22" | (bs) "c = CHR 0x5C" | (b) "c = CHR 0x08" | (f) "c = CHR 0x0C"
    | (n) "c = CHR 0x0A" | (r) "c = CHR 0x0D" | (t) "c = CHR 0x09"
    | (ctl) "c \<noteq> CHR 0x22" "c \<noteq> CHR 0x5C" "c \<noteq> CHR 0x08" "c \<noteq> CHR 0x0C" "c \<noteq> CHR 0x0A"
        "c \<noteq> CHR 0x0D" "c \<noteq> CHR 0x09" "(of_char c :: nat) < 32"
    | (plain) "c \<noteq> CHR 0x22" "c \<noteq> CHR 0x5C" "\<not> (of_char c :: nat) < 32"
    by (cases "(of_char c :: nat) < 32") auto
  then show ?thesis
  proof cases
    case ctl
    then show ?thesis
      by (simp add: quote_char_def hex4_control)
  next
    case plain
    then have "quote_char c = [c]"
      by (auto simp: quote_char_def)
    then show ?thesis using plain by simp
  qed (simp_all add: quote_char_def unescape_def)
qed

lemma parse_chars_quoted:
  "parse_chars (concat (map quote_char s) @ CHR 0x22 # r) = Some (s, r)"
  by (induction s) (simp_all add: parse_chars_quote_char cons_fst_def)

lemma value_start_not_ws: "value_start c \<Longrightarrow> \<not> is_ws c"
  by (subst (asm) value_start_def, elim disjE)
    (auto simp: is_ws_def is_digit_def)

lemma value_start_not_closing:
  "value_start c \<Longrightarrow> c \<noteq> CHR '']'' \<and> c \<noteq> CHR ''}'' \<and> c \<noteq> CHR '',''"
  by (subst (asm) value_start_def, elim disjE)
    (auto simp: is_digit_def)

lemma show_int_start: "\<exists>c cs. show_int i = c # cs \<and> (c = CHR ''-'' \<or> is_digit c)"
proof -
  obtain d cs where h: "show_nat (nat i) = digit_char d # cs" "d < 10"
    using show_nat_hd by blast
  show ?thesis
    using h by (auto simp: show_int_def is_digit_digit_char)
qed

lemma serialize_json_start: "\<exists>c cs. serialize_json v = c # cs \<and> value_start c"
proof (cases v)
  case (JNum n)
  show ?thesis
  proof (cases n)
    case (Fin i)
    obtain c cs where "show_int i = c # cs" "c = CHR ''-'' \<or> is_digit c"
      using show_int_start by blast
    then show ?thesis
      using JNum Fin by (auto simp: value_start_def)
  qed (simp_all add: JNum value_start_def)
qed (auto simp: value_start_def quote_def)

lemma skip_ws_start: "value_start c \<Longrightarrow> skip_ws (c # cs) = c # cs"
  by (simp add: skip_ws_def value_start_not_ws)

lemma skip_ws_serialize_json: "skip_ws (serialize_json v @ r) = serialize_json v @ r"
  using serialize_json_start [of v] by (auto simp: skip_ws_start)

lemma join_single: "join sep [x] = x"
  by (simp add: join_def)

lemma join_cons: "join sep (x # y # ys) = x @ sep @ join sep (y # ys)"
  by (simp add: join_def)

lemma delimited_simps:
  "delimited []" "delimited (CHR '','' # r)" "delimited (CHR '']'' # r)" "delimited (CHR ''}'' # r)"
  by (simp_all add: delimited_def is_digit_def)

lemma parse_value_number:
  assumes "delimited r"
  shows "parse_value (Suc n) (show_int i @ r) = Some (JNum (Fin i), r)"
proof -
  obtain c cs where h: "show_int i = c # cs" "c = CHR ''-'' \<or> is_digit c"
    using show_int_start by blast
  have vs: "value_start c" using h(2) by (auto simp: value_start_def)
  have ne: "c \<noteq> CHR ''n''" "c \<noteq> CHR ''t''" "c \<noteq> CHR ''f''" "c \<noteq> CHR 0x22" "c \<noteq> CHR ''[''"
    "c \<noteq> CHR ''{''"
    using h(2) by (auto simp: is_digit_def)
  have "parse_int (c # cs @ r) = Some (i, r)"
    using parse_int_show_int [of r i] assms h(1) by (simp add: delimited_def)
  then show ?thesis
    using ne by (simp add: h(1) skip_ws_start [OF vs])
qed

lemma parse_elements_join:
  assumes "xs \<noteq> []"
    and "\<And>x n r. x \<in> set xs \<Longrightarrow> 2 * length (serialize_json x) \<le> n \<Longrightarrow> delimited r \<Longrightarrow>
            parse_value n (serialize_json x @ r) = Some (f x, r)"
    and "2 * length (join '','' (map serialize_json xs)) + 1 \<le> m"
  shows "parse_elements m (join '','' (map serialize_json xs) @ CHR '']'' # r)
           = Some (map f xs, r)"
  using assms
proof (induction xs arbitrary: m)
  case Nil
  then show ?case by simp
next
  case (Cons x xs)
  note elems = Cons.prems(2)
  obtain m' where m: "m = Suc m'" using Cons.prems(3) by (cases m) auto
  show ?case
  proof (cases "xs = []")
    case True
    have "parse_value m' (serialize_json x @ CHR '']'' # r) = Some (f x, CHR '']'' # r)"
      using Cons.prems(3) m True
      by (intro elems) (simp_all add: join_single delimited_simps)
    then show ?thesis
      by (simp add: m True join_single skip_ws_def is_ws_def)
  next
    case False
    let ?rest = "join '','' (map serialize_json xs)"
    have j: "join '','' (serialize_json x # map serialize_json xs)
               = serialize_json x @ '','' @ ?rest"
      using False by (cases xs) (simp_all add: join_cons)
    have bound: "2 * (length (serialize_json x) + 1 + length ?rest) + 1 \<le> m"
      using Cons.prems(3) by (simp add: j)
    have first: "parse_value m' (serialize_json x @ CHR '','' # ?rest @ CHR '']'' # r)
                   = Some (f x, CHR '','' # ?rest @ CHR '']'' # r)"
      using bound m by (intro elems) (simp_all add: delimited_simps)
    have rest: "parse_elements m' (?rest @ CHR '']'' # r) = Some (map f xs, r)"
    proof (rule Cons.IH)
      show "xs \<noteq> []" by (rule False)
      show "parse_value n (serialize_json y @ q) = Some (f y, q)"
        if "y \<in> set xs" "2 * length (serialize_json y) \<le> n" "delimited q" for y n q
        using that by (intro elems) simp_all
      show "2 * length ?rest + 1 \<le> m'" using bound m by simp
    qed
    show ?thesis
      using first rest
      by (simp add: m j skip_ws_def is_ws_def cons_fst_def)
  qed
qed

lemma member_text_pair:
  "member_text (k, v)
     = CHR 0x22 # concat (map quote_char k) @ CHR 0x22 # CHR '':'' # serialize_json v"
  by (simp add: member_text_def quote_def)

lemma parse_members_join:
  assumes "kvs \<noteq> []"
    and "\<And>kv n r. kv \<in> set kvs \<Longrightarrow> 2 * length (serialize_json (snd kv)) \<le> n \<Longrightarrow>
            delimited r \<Longrightarrow>
            parse_value n (serialize_json (snd kv) @ r) = Some (f (snd kv), r)"
    and "2 * length (join '','' (map member_text kvs)) + 1 \<le> m"
  shows "parse_members m (join '','' (map member_text kvs) @ CHR ''}'' # r)
           = Some (map (\<lambda>kv. (fst kv, f (snd kv))) kvs, r)"
  using assms
proof (induction kvs arbitrary: m)
  case Nil
  then show ?case by simp
next
  case (Cons kv kvs)
  note vals = Cons.prems(2)
  obtain k v where kv: "kv = (k, v)" by (cases kv) auto
  obtain m' where m: "m = Suc m'" using Cons.prems(3) by (cases m) auto
  have key: "parse_chars (concat (map quote_char k) @ CHR 0x22 # q) = Some (k, q)" for q
    by (rule parse_chars_quoted)
  have not_ws: "skip_ws (CHR 0x22 # q) = CHR 0x22 # q" "skip_ws (CHR '':'' # q) = CHR '':'' # q"
    "skip_ws (CHR '','' # q) = CHR '','' # q" "skip_ws (CHR ''}'' # q) = CHR ''}'' # q" for q
    by (simp_all add: skip_ws_def is_ws_def)
  show ?case
  proof (cases "kvs = []")
    case True
    have "2 * length (serialize_json v) \<le> m'"
      using Cons.prems(3) m True by (simp add: join_single kv member_text_pair)
    then have "parse_value m' (serialize_json v @ CHR ''}'' # r) = Some (f v, CHR ''}'' # r)"
      using vals [of kv m' "CHR ''}'' # r"] by (simp add: kv delimited_simps)
    then show ?thesis
      by (simp add: m True join_single kv member_text_pair not_ws key)
  next
    case False
    let ?rest = "join '','' (map member_text kvs)"
    have j: "join '','' (member_text kv # map member_text kvs)
               = member_text kv @ '','' @ ?rest"
      using False by (cases kvs) (simp_all add: join_cons)
    have bound: "2 * (length (member_text kv) + 1 + length ?rest) + 1 \<le> m"
      using Cons.prems(3) by (simp add: j)
    have "2 * length (serialize_json v) \<le> m'"
      using bound m by (simp add: kv member_text_pair)
    then have first: "parse_value m' (serialize_json v @ CHR '','' # ?rest @ CHR ''}'' # r)
                   = Some (f v, CHR '','' # ?rest @ CHR ''}'' # r)"
      using vals [of kv m' "CHR '','' # ?rest @ CHR ''}'' # r"] by (simp add: kv delimited_simps)
    have rest: "parse_members m' (?rest @ CHR ''}'' # r)
                  = Some (map (\<lambda>kv. (fst kv, f (snd kv))) kvs, r)"
    proof (rule Cons.IH)
      show "kvs \<noteq> []" by (rule False)
      show "parse_value n (serialize_json (snd y) @ q) = Some (f (snd y), q)"
        if "y \<in> set kvs" "2 * length (serialize_json (snd y)) \<le> n" "delimited q" for y n q
        using that by (intro vals) simp_all
      show "2 * length ?rest + 1 \<le> m'" using bound m by simp
    qed
    have whole: "join '','' (map member_text (kv # kvs)) @ CHR ''}'' # r
                 = CHR 0x22 # concat (map quote_char k) @ CHR 0x22 # CHR '':'' #
                     serialize_json v @ CHR '','' # ?rest @ CHR ''}'' # r"
      by (simp only: list.map j) (simp add: kv member_text_pair)
    show ?thesis
      using first rest
      by (simp only: whole m) (simp add: not_ws key cons_fst_def kv)
  qed
qed

lemma set_property_fresh: "k \<notin> fst ` set acc \<Longrightarrow> set_property k v acc = acc @ [(k, v)]"
  by (induction acc) auto

lemma foldl_set_property:
  "distinct (map fst (acc @ kvs)) \<Longrightarrow>
     foldl (\<lambda>acc (k, v). set_property k v acc) acc kvs = acc @ kvs"
proof (induction kvs arbitrary: acc)
  case Nil
  then show ?case by simp
next
  case (Cons kv kvs)
  obtain k v where kv: "kv = (k, v)" by (cases kv) auto
  have fresh: "k \<notin> fst ` set acc" using Cons.prems by (auto simp: kv)
  have "distinct (map fst ((acc @ [(k, v)]) @ kvs))" using Cons.prems by (simp add: kv)
  from Cons.IH [OF this] show ?case
    by (simp add: kv set_property_fresh [OF fresh])
qed

lemma build_object_distinct: "distinct (map fst kvs) \<Longrightarrow> build_object kvs = JObj kvs"
  using foldl_set_property [of "[]" kvs] by (simp add: build_object_def)

lemma serialize_json_object:
  "serialize_json (JObj kvs)
     = ''{'' @ join '','' (map member_text (filter (\<lambda>(k, v). v \<noteq> JUndefined) kvs)) @ ''}''"
proof -
  have "(\<lambda>(k, v). quote k @ '':'' @ serialize_json v) = member_text"
    by (auto simp: member_text_def fun_eq_iff)
  then show ?thesis by simp
qed

lemma join_start:
  assumes "xs \<noteq> []" "\<And>x. x \<in> set xs \<Longrightarrow> \<exists>c cs. x = c # cs \<and> P c"
  shows "\<exists>c cs. join sep xs = c # cs \<and> P c"
proof -
  obtain x rest where xs: "xs = x # rest" using assms(1) by (cases xs) auto
  obtain c cs where "x = c # cs" "P c" using assms(2) [of x] xs by auto
  then show ?thesis by (auto simp: xs join_def)
qed

lemma parse_value_serialize_json:
  "2 * length (serialize_json v) \<le> n \<Longrightarrow> delimited r \<Longrightarrow>
     parse_value n (serialize_json v @ r) = Some (through_json v, r)"
proof (induction v arbitrary: n r)
  case JUndefined
  then obtain n' where "n = Suc n'" by (cases n) auto
  then show ?case by (simp add: skip_ws_def is_ws_def literal_def)
next
  case JNull
  then obtain n' where "n = Suc n'" by (cases n) auto
  then show ?case by (simp add: skip_ws_def is_ws_def literal_def)
next
  case (JBool b)
  then obtain n' where "n = Suc n'" by (cases n; cases b) auto
  then show ?case by (cases b) (simp_all add: skip_ws_def is_ws_def literal_def)
next
  case (JNum x)
  show ?case
  proof (cases x)
    case (Fin i)
    have "show_int i \<noteq> []" using show_int_start [of i] by auto
    with JNum.prems obtain n' where n: "n = Suc n'" by (cases n) (auto simp: Fin)
    show ?thesis
      using parse_value_number [OF JNum.prems(2), of n' i]
      by (simp only: Fin n serialize_json.simps through_json.simps)
  next
    case NaN
    with JNum.prems obtain n' where "n = Suc n'" by (cases n) auto
    then show ?thesis by (simp add: NaN skip_ws_def is_ws_def literal_def)
  next
    case PosInf
    with JNum.prems obtain n' where "n = Suc n'" by (cases n) auto
    then show ?thesis by (simp add: PosInf skip_ws_def is_ws_def literal_def)
  next
    case NegInf
    with JNum.prems obtain n' where "n = Suc n'" by (cases n) auto
    then show ?thesis by (simp add: NegInf skip_ws_def is_ws_def literal_def)
  qed
next
  case (JStr s)
  then obtain n' where "n = Suc n'" by (cases n) (auto simp: quote_def)
  then show ?case
    by (simp add: quote_def skip_ws_def is_ws_def parse_chars_quoted)
next
  case (JArr xs)
  obtain n' where n: "n = Suc n'" using JArr.prems by (cases n) auto
  show ?case
  proof (cases "xs = []")
    case True
    then show ?thesis by (simp add: n join_def skip_ws_def is_ws_def)
  next
    case False
    let ?body = "join '','' (map serialize_json xs)"
    have start: "\<exists>c cs. ?body = c # cs \<and> value_start c"
      using False serialize_json_start by (intro join_start) auto
    then obtain c cs where body: "?body = c # cs" "value_start c" by blast
    have elems: "parse_elements n' (?body @ CHR '']'' # r) = Some (map through_json xs, r)"
    proof (rule parse_elements_join [OF False])
      show "parse_value k (serialize_json x @ q) = Some (through_json x, q)"
        if "x \<in> set xs" "2 * length (serialize_json x) \<le> k" "delimited q" for x k q
        using that by (intro JArr.IH) auto
      show "2 * length ?body + 1 \<le> n'" using JArr.prems(1) n by simp
    qed
    have sk: "skip_ws (CHR ''['' # q) = CHR ''['' # q" "skip_ws (c # q) = c # q" for q
      using skip_ws_start [OF body(2)] by (simp_all add: skip_ws_def is_ws_def)
    have "parse_value (Suc n') (CHR ''['' # (c # cs) @ CHR '']'' # r)
            = Some (JArr (map through_json xs), r)"
      using elems body value_start_not_closing [OF body(2)]
      by (simp add: sk)
    then show ?thesis by (simp add: n body)
  qed
next
  case (JObj kvs)
  obtain n' where n: "n = Suc n'" using JObj.prems by (cases n) auto
  let ?kept = "filter (\<lambda>(k, v). v \<noteq> JUndefined) kvs"
  note ser = serialize_json_object [of kvs]
  have img: "map (\<lambda>kv. (fst kv, through_json (snd kv))) ?kept
               = map (\<lambda>(k, v). (k, through_json v)) ?kept"
    by (simp add: case_prod_beta)
  show ?case
  proof (cases "?kept = []")
    case True
    have "through_json (JObj kvs) = JObj []"
      by (simp add: True build_object_def)
    then show ?thesis
      by (simp only: ser True n) (simp add: join_def skip_ws_def is_ws_def)
  next
    case False
    let ?body = "join '','' (map member_text ?kept)"
    have start: "\<exists>c cs. ?body = c # cs \<and> c = CHR 0x22"
      using False by (intro join_start) (auto simp: member_text_def quote_def)
    then obtain cs where body: "?body = CHR 0x22 # cs" by blast
    have members: "parse_members n' (?body @ CHR ''}'' # r)
                     = Some (map (\<lambda>kv. (fst kv, through_json (snd kv))) ?kept, r)"
    proof (rule parse_members_join [OF False])
      show "parse_value k (serialize_json (snd kv) @ q) = Some (through_json (snd kv), q)"
        if "kv \<in> set ?kept" "2 * length (serialize_json (snd kv)) \<le> k" "delimited q"
        for kv k q
      proof (rule JObj.IH [of kv "snd kv"])
        show "kv \<in> set kvs" using that(1) by simp
        show "snd kv \<in> Basic_BNFs.snds kv" by (cases kv) simp
        show "2 * length (serialize_json (snd kv)) \<le> k" by (rule that(2))
        show "delimited q" by (rule that(3))
      qed
      show "2 * length ?body + 1 \<le> n'" using JObj.prems(1) [unfolded ser] n by simp
    qed
    have sk: "skip_ws (CHR ''{'' # q) = CHR ''{'' # q" "skip_ws (CHR 0x22 # q) = CHR 0x22 # q"
      for q
      by (simp_all add: skip_ws_def is_ws_def)
    have "parse_value (Suc n') (CHR ''{'' # (CHR 0x22 # cs) @ CHR ''}'' # r)
            = Some (build_object (map (\<lambda>(k, v). (k, through_json v)) ?kept), r)"
      using members body by (simp add: sk img)
    then show ?thesis
      by (simp only: ser n) (simp add: body)
  qed
qed

lemma JSON_parse_text_serialize_json:
  "JSON_parse_text (serialize_json v) = Some (through_json v)"
  using parse_value_serialize_json [of v "2 * length (serialize_json v) + 2" "[]"]
  by (simp add: JSON_parse_text_def delimited_simps skip_ws_def)

lemma through_json_id: "json_value v \<Longrightarrow> through_json v = v"
proof (induction v)
  case (JNum x)
  then show ?case by (cases x) simp_all
next
  case (JArr xs)
  then show ?case by (simp add: list_all_iff map_idI)
next
  case (JObj kvs)
  have keep: "filter (\<lambda>(k, v). v \<noteq> JUndefined) kvs = kvs"
    using JObj.prems by (auto simp: list_all_iff filter_id_conv)
  have "map (\<lambda>(k, v). (k, through_json v)) kvs = kvs"
  proof (rule map_idI)
    fix kv assume kv: "kv \<in> set kvs"
    have "through_json (snd kv) = snd kv"
      using JObj.prems kv by (intro JObj.IH [of kv]) (auto simp: list_all_iff snds.simps)
    then show "(case kv of (k, v) \<Rightarrow> (k, through_json v)) = kv"
      by (cases kv) simp
  qed
  then show ?case
    using JObj.prems by (simp add: keep build_object_distinct)
qed simp_all


lemma JSON_roundtrip:
  "v \<noteq> JUndefined \<Longrightarrow> JSON_parse (JSON_stringify v) = Some (through_json v)"
  by (simp add: JSON_parse_def JSON_stringify_def JSON_parse_text_serialize_json)

section \<open>Writing a record and reading it back\<close>


lemma validate_columns_accepted:
  "validate_columns cols r = Inr () \<Longrightarrow> (c, ty) \<in> set cols \<Longrightarrow> r c = Some v \<Longrightarrow> accepted ty v"
  by (induction cols r rule: validate_columns.induct)
    (auto simp: Let_def property_def accepted_def split: ColumnType.splits if_splits)

lemma accepted_validate_columns:
  "(\<And>c ty v. (c, ty) \<in> set cols \<Longrightarrow> r c = Some v \<Longrightarrow> accepted ty v) \<Longrightarrow>
     validate_columns cols r = Inr ()"
proof (induction cols)
  case Nil
  then show ?case by simp
next
  case (Cons col rest)
  obtain c ty where col: "col = (c, ty)" by (cases col) auto
  have rest: "validate_columns rest r = Inr ()"
    using Cons.prems by (intro Cons.IH) auto
  show ?case
  proof (cases "r c")
    case None
    then show ?thesis by (simp add: col rest)
  next
    case (Some v)
    have "accepted ty v" using Cons.prems [of c ty v] Some by (simp add: col)
    then show ?thesis
      using Some rest
      by (cases ty) (auto simp: col accepted_def property_def Let_def)
  qed
qed

lemma bind_accepted:
  "accepted ty v \<Longrightarrow> v \<noteq> JUndefined \<Longrightarrow> bind (serializeValue v ty) = Some (stored ty v)"
proof (cases ty)
  case Col_string
  assume "accepted ty v" "v \<noteq> JUndefined"
  then show ?thesis
    by (auto simp: Col_string accepted_def typeof_string stored_def serializeValue_def)
next
  case Col_number
  assume "accepted ty v" "v \<noteq> JUndefined"
  then consider n where "v = JNum n" | "v = JNull"
    by (auto simp: Col_number accepted_def typeof_number)
  then show ?thesis
  proof cases
    case 1
    then show ?thesis by (cases n) (simp_all add: Col_number stored_def serializeValue_def)
  next
    case 2
    then show ?thesis by (simp add: Col_number stored_def serializeValue_def)
  qed
next
  case Col_boolean
  then show ?thesis by (simp add: stored_def serializeValue_def)
next
  case Col_json
  assume "accepted ty v" "v \<noteq> JUndefined"
  then show ?thesis
    by (simp add: Col_json stored_def serializeValue_def JSON_stringify_def)
qed

lemma deserialize_stored:
  "v \<noteq> JUndefined \<Longrightarrow> accepted ty v \<Longrightarrow>
     deserializeValue (column_value (stored ty v)) ty = Inr (read_back ty (stored ty v))"
proof (cases ty)
  case Col_json
  assume ne: "v \<noteq> JUndefined"
  have "deserializeValue (JStr (serialize_json v)) Col_json = Inr (through_json v)"
    using JSON_roundtrip [OF ne] ne by (simp add: deserializeValue_def JSON_stringify_def)
  then show ?thesis
    using ne by (simp add: Col_json stored_def read_back_def serializeValue_def JSON_stringify_def)
qed (auto simp: read_back_def deserializeValue_def)

lemma deserialize_null: "deserializeValue (column_value SqlNull) ty = Inr JNull"
  by (simp add: deserializeValue_def)

lemma those_map_Some:
  "(\<And>x. x \<in> set xs \<Longrightarrow> f x = Some (g x)) \<Longrightarrow> those (map f xs) = Some (map g xs)"
  by (induction xs) simp_all

lemma fold_assign_other:
  "c \<notin> fst ` set as \<Longrightarrow> fold (\<lambda>(c, v) r. r(c := v)) as r0 c = r0 c"
  by (induction as arbitrary: r0) auto

lemma fold_assign_distinct:
  "distinct (map fst as) \<Longrightarrow> (c, p) \<in> set as \<Longrightarrow> fold (\<lambda>(c, v) r. r(c := v)) as r0 c = p"
proof (induction as arbitrary: r0)
  case Nil
  then show ?case by simp
next
  case (Cons a as)
  obtain c' p' where a: "a = (c', p')" by (cases a) auto
  show ?case
  proof (cases "(c, p) = (c', p')")
    case True
    then have "c \<notin> fst ` set as" using Cons.prems(1) by (auto simp: a)
    from fold_assign_other [OF this, of "r0(c := p)"]
    have "fold (\<lambda>(c, v) r. r(c := v)) as (r0(c := p)) c = p" by simp
    then show ?thesis using True by (simp add: a del: fun_upd_apply)
  next
    case False
    then have "(c, p) \<in> set as" using Cons.prems(2) by (auto simp: a)
    then show ?thesis using Cons.IH Cons.prems(1) by (simp add: a del: fun_upd_apply)
  qed
qed

lemma columnsToInsert_member:
  "((c, ty) \<in> set (columnsToInsert cols r)) =
     ((c, ty) \<in> set cols \<and> (\<exists>v. r c = Some v \<and> v \<noteq> JUndefined))"
  by (auto simp: columnsToInsert_def property_def split: option.splits)

lemma written_row_written:
  assumes "distinct (map fst cols)" "(c, ty) \<in> set cols" "r c = Some v" "v \<noteq> JUndefined"
  shows "written_row cols r c = stored ty v"
proof -
  let ?as = "map (\<lambda>(c, ty). (c, stored ty (property r c))) (columnsToInsert cols r)"
  have fst_as: "map fst ?as = map fst (columnsToInsert cols r)"
    by (simp add: case_prod_beta comp_def)
  have "distinct (map fst (columnsToInsert cols r))"
    using assms(1) by (simp add: columnsToInsert_def distinct_map_filter)
  then have d: "distinct (map fst ?as)" by (simp only: fst_as)
  have "(c, ty) \<in> set (columnsToInsert cols r)"
    using assms by (simp add: columnsToInsert_member)
  then have "(c, stored ty (property r c)) \<in> set ?as"
    by force
  from fold_assign_distinct [OF d this] show ?thesis
    using assms(3) by (simp add: written_row_def new_row_def property_def)
qed

lemma written_row_unwritten:
  assumes "r c = None \<or> r c = Some JUndefined"
  shows "written_row cols r c = SqlNull"
proof -
  let ?as = "map (\<lambda>(c, ty). (c, stored ty (property r c))) (columnsToInsert cols r)"
  have "c \<notin> fst ` set ?as"
    using assms by (auto simp: columnsToInsert_member)
  from fold_assign_other [OF this] show ?thesis
    by (simp add: written_row_def new_row_def)
qed

lemma table_matches_table:
  assumes "table_matches d name schema"
  shows "\<exists>t. d name = Some t \<and> sql_identifier name
           \<and> column_names t = map fst (columns schema)
           \<and> primary_key t = [''id'']
           \<and> distinct (map fst (columns schema))
           \<and> (\<forall>c \<in> fst ` set (columns schema). sql_identifier c)
           \<and> ''id'' \<in> fst ` set (columns schema)"
proof -
  from assms obtain t where t: "d name = Some t" "sql_identifier name"
    "col_defs t = map (\<lambda>(n, ty). (n, getSQLiteType ty, n = ''id'')) (columns schema)"
    "distinct (map fst (columns schema))"
    "list_all (\<lambda>(n, ty). sql_identifier n) (columns schema)"
    "list_ex (\<lambda>(n, ty). n = ''id'') (columns schema)"
    by (auto simp: table_matches_def split: option.splits)
  have names: "column_names t = map fst (columns schema)"
    by (simp add: column_names_def t(3) case_prod_beta comp_def)
  have has_id: "''id'' \<in> fst ` set (columns schema)"
    using t(6) by (force simp: list_ex_iff)
  have pk: "primary_key t = filter (\<lambda>n. n = ''id'') (map fst (columns schema))"
    by (simp add: primary_key_def t(3) filter_map comp_def case_prod_beta)
  have "filter (\<lambda>n. n = ''id'') ns = [''id'']" if "distinct ns" "''id'' \<in> set ns" for ns
    using that
  proof (induction ns)
    case Nil
    then show ?case by simp
  next
    case (Cons n ns)
    show ?case
    proof (cases "n = ''id''")
      case True
      then have "''id'' \<notin> set ns" using Cons.prems(1) by simp
      then have "filter (\<lambda>n. n = ''id'') ns = []" by (induction ns) auto
      then show ?thesis using True by simp
    next
      case False
      then show ?thesis using Cons by simp
    qed
  qed
  from this [OF t(4)] has_id have pk': "primary_key t = [''id'']"
    by (simp add: pk)
  have ids: "\<forall>c \<in> fst ` set (columns schema). sql_identifier c"
    using t(5) by (auto simp: list_all_iff)
  show ?thesis
    using t(1) t(2) names pk' t(4) ids has_id by blast
qed

lemma zip_map_same: "zip (map f xs) (map g xs) = map (\<lambda>x. (f x, g x)) xs"
  by (induction xs) simp_all

lemma add_local_valid:
  assumes reg: "ts name = Some schema"
    and tm: "table_matches d name schema"
    and t: "d name = Some t"
    and valid: "validateRowData ts name r = Inr ()"
  shows "add_local d ts name r = Inr (d(name \<mapsto> insert_row t (written_row (columns schema) r)))"
proof -
  let ?cti = "columnsToInsert (columns schema) r"
  from table_matches_table [OF tm] obtain t' where t': "d name = Some t'" "sql_identifier name"
    "column_names t' = map fst (columns schema)"
    "primary_key t' = [''id'']"
    "distinct (map fst (columns schema))"
    "\<forall>c \<in> fst ` set (columns schema). sql_identifier c"
    "''id'' \<in> fst ` set (columns schema)"
    by blast
  have tt: "t' = t" using t t'(1) by simp
  have id: "truthy (property r ''id'')" and cols_ok: "validate_columns (columns schema) r = Inr ()"
    using valid reg by (auto simp: validateRowData_def split: if_splits)
  have prep: "prepare d name (map fst ?cti) = Some t"
    using t t'(2,3,6) unfolding tt
    by (auto simp: prepare_def list_all_iff columnsToInsert_member intro: rev_image_eqI)
  obtain idty where idty: "(''id'', idty) \<in> set (columns schema)"
    using t'(7) by auto
  have "\<exists>v. r ''id'' = Some v \<and> v \<noteq> JUndefined"
    using id by (cases "r ''id''") (auto simp: property_def)
  then have "(''id'', idty) \<in> set ?cti"
    using idty by (simp add: columnsToInsert_member)
  then have nonempty: "map fst ?cti \<noteq> []" by auto
  have bound: "those (map bind (insert_values (columns schema) r))
                 = Some (map (\<lambda>(c, ty). stored ty (property r c)) ?cti)"
  proof -
    have "bind (serializeValue (property r c) ty) = Some (stored ty (property r c))"
      if "(c, ty) \<in> set ?cti" for c ty
    proof -
      from that obtain v where v: "(c, ty) \<in> set (columns schema)" "r c = Some v" "v \<noteq> JUndefined"
        by (auto simp: columnsToInsert_member)
      have "accepted ty v" using validate_columns_accepted [OF cols_ok v(1,2)] .
      from bind_accepted [OF this v(3)] show ?thesis
        using v(2) by (simp add: property_def)
    qed
    then have "those (map (\<lambda>x. bind (case x of (c, ty) \<Rightarrow> serializeValue (property r c) ty)) ?cti)
                 = Some (map (\<lambda>(c, ty). stored ty (property r c)) ?cti)"
      by (intro those_map_Some) auto
    then show ?thesis by (simp add: insert_values_def comp_def)
  qed
  have row: "new_row (zip (map fst ?cti) (map (\<lambda>(c, ty). stored ty (property r c)) ?cti))
               = written_row (columns schema) r"
    by (simp add: written_row_def zip_map_same case_prod_unfold)
  have "run_insert_or_replace d name (map fst ?cti) (insert_values (columns schema) r)
          = Inr (d(name \<mapsto> insert_row t (written_row (columns schema) r)))"
    unfolding run_insert_or_replace_def prep bound
    using nonempty by (simp add: row insert_row_def Let_def)
  then show ?thesis
    using valid reg by (simp add: add_local_def)
qed

lemma find_none: "(\<And>x. x \<in> set xs \<Longrightarrow> \<not> P x) \<Longrightarrow> find P xs = None"
  by (induction xs) auto

lemma find_append_new: "(\<And>x. x \<in> set xs \<Longrightarrow> \<not> P x) \<Longrightarrow> P y \<Longrightarrow> find P (xs @ [y]) = Some y"
  by (induction xs) auto

lemma select_written:
  assumes tm: "table_matches d name schema"
    and t: "d name = Some t"
    and id: "row ''id'' = SqlText i"
  shows "select_by_id (d(name \<mapsto> insert_row t row)) name (map fst (columns schema)) i
           = Inr (Some (row_object (map fst (columns schema)) row))"
proof -
  from table_matches_table [OF tm] obtain t' where t': "d name = Some t'" "sql_identifier name"
    "column_names t' = map fst (columns schema)"
    "primary_key t' = [''id'']"
    "distinct (map fst (columns schema))"
    "\<forall>c \<in> fst ` set (columns schema). sql_identifier c"
    "''id'' \<in> fst ` set (columns schema)"
    by blast
  have tt: "t' = t" using t t'(1) by simp
  have names: "column_names (insert_row t row) = map fst (columns schema)"
    using t'(3) by (simp add: tt insert_row_def column_names_def)
  have prep: "prepare (d(name \<mapsto> insert_row t row)) name (''id'' # map fst (columns schema))
                = Some (insert_row t row)"
    using t'(2,6,7) names by (auto simp: prepare_def list_all_iff)
  have nonempty: "map fst (columns schema) \<noteq> []" using t'(7) by auto
  have old: "\<not> old ''id'' = SqlText i"
    if "old \<in> set (filter (\<lambda>old. \<not> conflicts t old row) (rows t))" for old
    using that t'(4) id by (auto simp: tt conflicts_def)
  have "find (\<lambda>r. r ''id'' = SqlText i)
          (filter (\<lambda>old. \<not> conflicts t old row) (rows t) @ [row]) = Some row"
    by (rule find_append_new) (use old id in blast)+
  then have "find (\<lambda>r. r ''id'' = SqlText i) (rows (insert_row t row)) = Some row"
    by (simp add: insert_row_def)
  then show ?thesis
    unfolding select_by_id_def prep using nonempty by simp
qed

lemma deserialize_row_all:
  assumes "\<And>c ty. (c, ty) \<in> set cols \<Longrightarrow>
             \<exists>x. row c = Some x \<and> deserializeValue x ty = Inr (w c)"
  shows "deserialize_row cols row acc
           = Inr (\<lambda>c. if c \<in> fst ` set cols then Some (w c) else acc c)"
  using assms
proof (induction cols arbitrary: acc)
  case Nil
  then show ?case by simp
next
  case (Cons col cols)
  obtain c ty where col: "col = (c, ty)" by (cases col) auto
  from Cons.prems [of c ty] obtain x where x: "row c = Some x" "deserializeValue x ty = Inr (w c)"
    by (auto simp: col)
  have "deserialize_row cols row (acc(c \<mapsto> w c))
          = Inr (\<lambda>c'. if c' \<in> fst ` set cols then Some (w c') else (acc(c \<mapsto> w c)) c')"
    using Cons.prems by (intro Cons.IH) auto
  then show ?case
    using x by (auto simp: col fun_eq_iff)
qed

lemma read_back_null: "read_back ty SqlNull = JNull"
  by (simp add: read_back_def deserializeValue_def)

lemma valid_id:
  assumes reg: "ts name = Some schema"
    and valid: "validateRowData ts name r = Inr ()"
    and idcol: "(''id'', Col_string) \<in> set (columns schema)"
  shows "\<exists>i. r ''id'' = Some (JStr i) \<and> i \<noteq> []"
proof -
  have id: "truthy (property r ''id'')" and cols_ok: "validate_columns (columns schema) r = Inr ()"
    using valid reg by (auto simp: validateRowData_def split: if_splits)
  from id obtain v where v: "r ''id'' = Some v" "truthy v"
    by (cases "r ''id''") (auto simp: property_def)
  have "accepted Col_string v" using validate_columns_accepted [OF cols_ok idcol v(1)] .
  then obtain i where "v = JStr i"
    using v(2) by (auto simp: accepted_def typeof_string)
  then show ?thesis using v by auto
qed

lemma deserialize_written:
  assumes cols_ok: "validate_columns cols r = Inr ()"
    and dist: "distinct (map fst cols)"
    and col: "(c, ty) \<in> set cols"
  shows "deserializeValue (column_value (written_row cols r c)) ty
           = Inr (read_back ty (written_row cols r c))"
proof (cases "\<exists>v. r c = Some v \<and> v \<noteq> JUndefined")
  case True
  then obtain v where v: "r c = Some v" "v \<noteq> JUndefined" by blast
  have acc: "accepted ty v" using validate_columns_accepted [OF cols_ok col v(1)] .
  show ?thesis
    using deserialize_stored [OF v(2) acc]
      written_row_written [where r = r, OF dist col v] by simp
next
  case False
  then have "r c = None \<or> r c = Some JUndefined" by (cases "r c") auto
  from written_row_unwritten [where r = r and c = c, OF this] show ?thesis
    by (simp add: read_back_null deserializeValue_def)
qed

lemma get_written:
  assumes reg: "ts name = Some schema"
    and tm: "table_matches d name schema"
    and t: "d name = Some t"
    and valid: "validateRowData ts name r = Inr ()"
    and idcol: "(''id'', Col_string) \<in> set (columns schema)"
    and id: "r ''id'' = Some (JStr i)"
  shows "get (Store (d(name \<mapsto> insert_row t (written_row (columns schema) r))) ts ms)
           (JStr name) (JStr i)
         = Inr (Some (record_of_row (columns schema) (written_row (columns schema) r)))"
proof -
  let ?cols = "columns schema"
  let ?row = "written_row ?cols r"
  from table_matches_table [OF tm] have dist: "distinct (map fst ?cols)" by blast
  have cols_ok: "validate_columns ?cols r = Inr ()"
    using valid reg by (auto simp: validateRowData_def split: if_splits)
  have "?row ''id'' = stored Col_string (JStr i)"
    using written_row_written [where r = r, OF dist idcol id] by simp
  then have rid: "?row ''id'' = SqlText i"
    by (simp add: stored_def serializeValue_def)
  have sel: "select_by_id (d(name \<mapsto> insert_row t ?row)) name (map fst ?cols) i
               = Inr (Some (row_object (map fst ?cols) ?row))"
    by (rule select_written [where row = "?row", OF tm t rid])
  have des: "deserialize_row ?cols (row_object (map fst ?cols) ?row) Map.empty
               = Inr (\<lambda>c. if c \<in> fst ` set ?cols
                           then Some (read_back (the (map_of ?cols c)) (?row c))
                           else Map.empty c)"
  proof (rule deserialize_row_all)
    fix c ty assume col: "(c, ty) \<in> set ?cols"
    have ty: "map_of ?cols c = Some ty" using dist col by (rule map_of_is_SomeI)
    have "row_object (map fst ?cols) ?row c = Some (column_value (?row c))"
      using col by (force simp: row_object_def)
    moreover have "deserializeValue (column_value (?row c)) ty
                     = Inr (read_back (the (map_of ?cols c)) (?row c))"
      using deserialize_written [OF cols_ok dist col] by (simp add: ty)
    ultimately show "\<exists>x. row_object (map fst ?cols) ?row c = Some x
                       \<and> deserializeValue x ty = Inr (read_back (the (map_of ?cols c)) (?row c))"
      by blast
  qed
  have rec: "(\<lambda>c. if c \<in> fst ` set ?cols
                 then Some (read_back (the (map_of ?cols c)) (?row c))
                 else Map.empty c) = record_of_row ?cols ?row"
    by (force simp: record_of_row_def fun_eq_iff map_of_eq_None_iff split: option.splits
        dest: map_of_SomeD)
  show ?thesis
    by (simp add: get_def reg sel des rec)
qed

lemma record_of_row_declared:
  assumes "distinct (map fst cols)" "(c, ty) \<in> set cols"
  shows "record_of_row cols row c = Some (read_back ty (row c))"
  using map_of_is_SomeI [OF assms] by (simp add: record_of_row_def)

lemma record_of_row_undeclared:
  "c \<notin> fst ` set cols \<Longrightarrow> record_of_row cols row c = None"
  by (simp add: record_of_row_def map_of_eq_None_iff [THEN iffD2])




lemma createTableIfNotExists_table_matches:
  assumes "d name = None"
    and "createTableIfNotExists d ts name \<lparr>columns = cols\<rparr> = Inr (d', ts', schema')"
  shows "table_matches d' name schema' \<and> ts' name = Some schema'"
proof -
  let ?cols' = "if list_ex (\<lambda>(n, ty). n = ''id'') cols then cols else (''id'', Col_string) # cols"
  let ?defs = "map (\<lambda>(n, ty). (n, getSQLiteType ty, n = ''id'')) ?cols'"
  from createTableIfNotExists_registers [OF assms(2)]
  have schema': "schema' = \<lparr>columns = ?cols'\<rparr>" and ts': "ts' = ts(name \<mapsto> schema')"
    by simp_all
  have ex: "exec_create_table d name ?defs = Inr d'"
    using assms(2) by (auto simp: createTableIfNotExists_def Let_def split: sum.splits if_splits)
  have fsts: "map fst ?defs = map fst ?cols'"
    by (simp add: case_prod_unfold comp_def)
  have ids: "list_all (\<lambda>(n, ty, pk). sql_identifier n) ?defs
               = list_all (\<lambda>(n, ty). sql_identifier n) ?cols'"
    by (simp add: list_all_iff case_prod_unfold)
  from ex assms(1) have facts: "sql_identifier name" "list_all (\<lambda>(n, ty, pk). sql_identifier n) ?defs"
    "distinct (map fst ?defs)" "d' = d(name \<mapsto> \<lparr>col_defs = ?defs, rows = []\<rparr>)"
    by (auto simp: exec_create_table_def split: if_splits)
  have "list_ex (\<lambda>(n, ty). n = ''id'') ?cols'" by simp
  then show ?thesis
    using facts(1) facts(2) [unfolded ids] facts(3) [unfolded fsts] facts(4)
    by (simp add: table_matches_def schema' ts')
qed


subsection \<open>Reading an existing record, and writing it back\<close>

lemma num_add_zero: "num_add (Fin 0) d = d"
  by (cases d) simp_all

lemma deserialize_row_other:
  "deserialize_row cols row acc = Inr res \<Longrightarrow> c \<notin> fst ` set cols \<Longrightarrow> res c = acc c"
proof (induction cols arbitrary: acc)
  case Nil
  then show ?case by simp
next
  case (Cons p cols)
  obtain n ty where p: "p = (n, ty)" by (cases p)
  from Cons.prems show ?case
    by (auto simp: p dest: Cons.IH split: option.splits sum.splits)
qed

lemma deserialize_row_declared:
  "deserialize_row cols row acc = Inr res \<Longrightarrow> distinct (map fst cols) \<Longrightarrow>
   (c, ty) \<in> set cols \<Longrightarrow> row c = Some x \<Longrightarrow>
   \<exists>w. deserializeValue x ty = Inr w \<and> res c = Some w"
proof (induction cols arbitrary: acc)
  case Nil
  then show ?case by simp
next
  case (Cons p cols)
  obtain n t where p: "p = (n, t)" by (cases p)
  show ?case
  proof (cases "(c, ty) = p")
    case True
    then have n: "n = c" "t = ty" using p by simp_all
    from Cons.prems(2) have notin: "c \<notin> fst ` set cols" by (simp add: p n)
    from Cons.prems(1) Cons.prems(4) obtain w where
      w: "deserializeValue x ty = Inr w" "deserialize_row cols row (acc(c \<mapsto> w)) = Inr res"
      by (auto simp: p n split: sum.splits)
    from deserialize_row_other [OF w(2) notin] w(1) show ?thesis by simp
  next
    case False
    then have mem: "(c, ty) \<in> set cols" using Cons.prems(3) by auto
    from Cons.prems(2) have d: "distinct (map fst cols)" by simp
    from Cons.prems(1) obtain acc' where "deserialize_row cols row acc' = Inr res"
      by (auto simp: p split: option.splits sum.splits)
    from Cons.IH [OF this d mem Cons.prems(4)] show ?thesis .
  qed
qed

lemma validate_columns_cong:
  "(\<And>c. c \<in> fst ` set cols \<Longrightarrow> r c = r' c) \<Longrightarrow> validate_columns cols r = validate_columns cols r'"
proof (induction cols)
  case Nil
  then show ?case by simp
next
  case (Cons p cols)
  obtain n t where p: "p = (n, t)" by (cases p)
  have h: "r n = r' n" using Cons.prems by (simp add: p)
  have "validate_columns cols r = validate_columns cols r'"
    using Cons.prems by (intro Cons.IH) simp
  then show ?case using h by (simp add: p property_def Let_def split: ColumnType.splits)
qed

lemma validateRowData_cong:
  assumes "ts name = Some schema" "''id'' \<in> fst ` set (columns schema)"
    and "\<And>c. c \<in> fst ` set (columns schema) \<Longrightarrow> r c = r' c"
  shows "validateRowData ts name r = validateRowData ts name r'"
proof -
  have "r ''id'' = r' ''id''" using assms(2,3) by blast
  moreover have "validate_columns (columns schema) r = validate_columns (columns schema) r'"
    using assms(3) by (rule validate_columns_cong)
  ultimately show ?thesis
    using assms(1) by (simp add: validateRowData_def property_def)
qed

lemma get_found:
  assumes "get s (JStr name) (JStr i) = Inr (Some record)"
    and "tableSchemas s name = Some schema"
  shows "\<exists>row. select_by_id (db s) name (map fst (columns schema)) i = Inr (Some row)
           \<and> deserialize_row (columns schema) row Map.empty = Inr record"
  using assms by (auto simp: get_def split: sum.splits option.splits)

lemma get_undeclared:
  assumes "get s (JStr name) (JStr i) = Inr (Some record)"
    and "tableSchemas s name = Some schema"
    and "c \<notin> fst ` set (columns schema)"
  shows "record c = None"
proof -
  from get_found [OF assms(1,2)] obtain row where
    "deserialize_row (columns schema) row Map.empty = Inr record" by blast
  from deserialize_row_other [OF this assms(3)] show ?thesis by simp
qed

lemma get_id:
  assumes g: "get s (JStr name) (JStr i) = Inr (Some record)"
    and reg: "tableSchemas s name = Some schema"
    and dist: "distinct (map fst (columns schema))"
    and idcol: "(''id'', Col_string) \<in> set (columns schema)"
  shows "record ''id'' = Some (JStr i)"
proof -
  from get_found [OF g reg] obtain row where
    sel: "select_by_id (db s) name (map fst (columns schema)) i = Inr (Some row)"
    and des: "deserialize_row (columns schema) row Map.empty = Inr record" by blast
  have mem: "''id'' \<in> set (map fst (columns schema))" using idcol by force
  from sel obtain t :: sql_table and r0 where
    "find (\<lambda>r. r ''id'' = SqlText i) (rows t) = Some r0"
    "row = row_object (map fst (columns schema)) r0"
    by (auto simp: select_by_id_def split: option.splits if_splits)
  then have "r0 ''id'' = SqlText i" "row ''id'' = Some (column_value (r0 ''id''))"
    using mem by (auto simp: find_Some_iff row_object_def)
  then have "row ''id'' = Some (JStr i)" by simp
  from deserialize_row_declared [OF des dist idcol this]
  show ?thesis by (simp add: deserializeValue_def)
qed

lemma add_local_store:
  assumes "add_local (db s) (tableSchemas s) name r = Inr d'"
  shows "\<exists>ms'. snd (add s (JStr name) r) = Store d' (tableSchemas s) ms'"
    and "failure (fst (add_mirrors (mirrors s) (JStr name) r)) = None
           \<Longrightarrow> fst (add s (JStr name) r) = Inr r"
  using assms
  by (cases s; auto simp: add_unfold failure_def split: sum.splits)+

lemma increment_adds:
  assumes "get s (JStr name) ident = Inr (Some record)"
    and "record c = None" "c \<notin> set Object_prototype"
  shows "snd (increment s (JStr name) ident c d) = snd (add s (JStr name) (record(c \<mapsto> JNum d)))"
    and "fst (add s (JStr name) (record(c \<mapsto> JNum d))) = Inr u
           \<Longrightarrow> fst (increment s (JStr name) ident c d) = Inr d"
  using assms
  by (auto simp: increment_def property_def num_add_zero split: prod.splits sum.splits)

lemma written_then_got:
  assumes reg: "tableSchemas s name = Some schema"
    and tm: "table_matches (db s) name schema"
    and idcol: "(''id'', Col_string) \<in> set (columns schema)"
    and valid: "validateRowData (tableSchemas s) name r = Inr ()"
    and id: "r ''id'' = Some (JStr i)"
  shows "get (snd (add s (JStr name) r)) (JStr name) (JStr i)
           = Inr (Some (record_of_row (columns schema) (written_row (columns schema) r)))"
proof -
  from table_matches_table [OF tm] obtain t where t: "db s name = Some t" by blast
  from add_local_valid [OF reg tm t valid] add_local_store(1) obtain ms' where
    "snd (add s (JStr name) r)
       = Store ((db s)(name \<mapsto> insert_row t (written_row (columns schema) r))) (tableSchemas s) ms'"
    by blast
  then show ?thesis
    using get_written [OF reg tm t valid idcol id] by simp
qed


text \<open>What \<^verbatim>\<open>get\<close> returns for a record that \<^verbatim>\<open>add\<close> has written passes validation again.\<close>

lemma read_back_accepted: "accepted ty v \<Longrightarrow> accepted ty (read_back ty (stored ty v))"
proof (cases ty)
  case Col_string
  assume "accepted ty v"
  then show ?thesis
    by (auto simp: Col_string accepted_def typeof_string stored_def read_back_def
        serializeValue_def deserializeValue_def)
next
  case Col_number
  assume "accepted ty v"
  then consider n where "v = JNum n" | "v = JNull"
    by (auto simp: Col_number accepted_def typeof_number)
  then show ?thesis
  proof cases
    case 1
    then show ?thesis
      by (cases n) (simp_all add: Col_number accepted_def stored_def read_back_def
          serializeValue_def deserializeValue_def)
  next
    case 2
    then show ?thesis
      by (simp add: Col_number accepted_def stored_def read_back_def serializeValue_def
          deserializeValue_def)
  qed
next
  case Col_boolean
  assume "accepted ty v"
  then show ?thesis
    by (auto simp: Col_boolean accepted_def typeof_boolean stored_def read_back_def
        serializeValue_def deserializeValue_def)
next
  case Col_json
  then show ?thesis by (simp add: accepted_def)
qed

lemma written_record_valid:
  assumes reg: "ts name = Some schema"
    and dist: "distinct (map fst (columns schema))"
    and idcol: "(''id'', Col_string) \<in> set (columns schema)"
    and valid: "validateRowData ts name r = Inr ()"
  shows "validateRowData ts name (record_of_row (columns schema) (written_row (columns schema) r))
           = Inr ()"
proof -
  let ?cols = "columns schema"
  let ?rec = "record_of_row ?cols (written_row ?cols r)"
  have cols_ok: "validate_columns ?cols r = Inr ()"
    using valid reg by (auto simp: validateRowData_def split: if_splits)
  have acc: "accepted ty v" if mem: "(c, ty) \<in> set ?cols" and v: "?rec c = Some v" for c ty v
  proof -
    have rb: "v = read_back ty (written_row ?cols r c)"
      using record_of_row_declared [OF dist mem, of "written_row ?cols r"] v by simp
    show ?thesis
    proof (cases "r c = None \<or> r c = Some JUndefined")
      case True
      from written_row_unwritten [where r = r and c = c and cols = "columns schema", OF this]
      show ?thesis
        by (simp add: rb read_back_null accepted_def)
    next
      case False
      then obtain w where w: "r c = Some w" "w \<noteq> JUndefined" by auto
      have "accepted ty w" by (rule validate_columns_accepted [OF cols_ok mem w(1)])
      then show ?thesis
        using written_row_written [where r = r, OF dist mem w] by (simp add: rb read_back_accepted)
    qed
  qed
  have columns: "validate_columns ?cols ?rec = Inr ()"
    by (rule accepted_validate_columns) (rule acc)
  from valid_id [OF reg valid idcol] obtain i where i: "r ''id'' = Some (JStr i)" "i \<noteq> []"
    by blast
  have "written_row ?cols r ''id'' = stored Col_string (JStr i)"
    using written_row_written [where r = r, OF dist idcol i(1)] by simp
  then have "?rec ''id'' = Some (JStr i)"
    using record_of_row_declared [OF dist idcol, of "written_row ?cols r"]
    by (simp add: stored_def read_back_def serializeValue_def deserializeValue_def)
  then show ?thesis
    using reg columns i(2) by (simp add: validateRowData_def property_def)
qed

subsection \<open>The outcomes of \<open>increment\<close>\<close>






section \<open>Registration: what \<open>initTable\<close> validates (C8)\<close>

text \<open>
  C8, as stated: \<^verbatim>\<open>initTable\<close> fails with \<^verbatim>\<open>InvalidType\<close> whenever the name is not
  non-empty text or the column list is empty.  The code tests \<^verbatim>\<open>typeof tableName\<close> and
  \<^verbatim>\<open>Array.isArray(schema.columns)\<close> only.  With an empty column array the call succeeds
  and registers the table with the single column \<^verbatim>\<open>id\<close>; with an empty name the call
  reaches the engine, whose error is not an \<^verbatim>\<open>InvalidType\<close>.
\<close>

theorem initTable_empty_columns_accepted:
  "fst (initTable (Store Map.empty Map.empty []) (JStr ''t'') (Schema_columns [])) = Inr ()
   \<and> tableSchemas (snd (initTable (Store Map.empty Map.empty []) (JStr ''t'')
        (Schema_columns []))) ''t'' = Some \<lparr>columns = [(''id'', Col_string)]\<rparr>
   \<and> fst (initTable (Store Map.empty Map.empty []) (JStr [])
        (Schema_columns [(''name'', Col_string)])) = Inl EngineError"
  by code_simp

text \<open>
  C8, amended: \<^verbatim>\<open>initTable\<close> fails with \<^verbatim>\<open>InvalidType\<close> exactly when the name is not a
  string or the schema has no column array, and then it changes nothing.  An empty string
  as name passes this validation, and the call then never succeeds and registers nothing.
  An empty column array is accepted: when the call succeeds, the table is registered with
  the single column \<^verbatim>\<open>id\<close> of type \<^verbatim>\<open>string\<close>.
\<close>

theorem initTable_validation:
  "((fst (initTable s tableName schema) = Inl (createError InvalidType)) =
      (typeof tableName \<noteq> ''string'' \<or> (\<forall>cols. schema \<noteq> Schema_columns cols)))
   \<and> (fst (initTable s tableName schema) = Inl (createError InvalidType) \<longrightarrow>
        snd (initTable s tableName schema) = s)
   \<and> fst (initTable s (JStr []) schema) \<noteq> Inr ()
   \<and> snd (initTable s (JStr []) schema) = s
   \<and> (fst (initTable s (JStr name) (Schema_columns [])) = Inr () \<longrightarrow>
        tableSchemas (snd (initTable s (JStr name) (Schema_columns []))) name =
          Some \<lparr>columns = [(''id'', Col_string)]\<rparr>)"
proof -
  have iff: "(fst (initTable s tableName schema) = Inl (createError InvalidType)) =
     (typeof tableName \<noteq> ''string'' \<or> (\<forall>cols. schema \<noteq> Schema_columns cols))"
  proof
    assume "fst (initTable s tableName schema) = Inl (createError InvalidType)"
    then show "typeof tableName \<noteq> ''string'' \<or> (\<forall>cols. schema \<noteq> Schema_columns cols)"
      using initTable_error_kind(1) [of tableName schema s InvalidType]
      by (auto simp: createError_def)
  next
    assume "typeof tableName \<noteq> ''string'' \<or> (\<forall>cols. schema \<noteq> Schema_columns cols)"
    then show "fst (initTable s tableName schema) = Inl (createError InvalidType)"
      by (simp add: initTable_rejects)
  qed
  have unchanged: "fst (initTable s tableName schema) = Inl (createError InvalidType) \<longrightarrow>
     snd (initTable s tableName schema) = s"
    using iff initTable_rejects [of tableName schema s] by auto
  have empty_columns: "fst (initTable s (JStr name) (Schema_columns [])) = Inr () \<longrightarrow>
     tableSchemas (snd (initTable s (JStr name) (Schema_columns []))) name =
       Some \<lparr>columns = [(''id'', Col_string)]\<rparr>"
    using initTable_registers [of s name "[]"] by simp
  show ?thesis
    using iff unchanged empty_columns initTable_empty_name [of s schema] by blast
qed

theorem initTable_validation_witness:
  "fst (initTable (Store Map.empty Map.empty []) (JNum (Fin 7)) (Schema_columns []))
     = Inl (createError InvalidType)
   \<and> snd (initTable (Store Map.empty Map.empty []) (JNum (Fin 7)) (Schema_columns []))
     = Store Map.empty Map.empty []
   \<and> fst (initTable (Store Map.empty Map.empty []) (JStr ''t'') Columns_missing)
     = Inl (createError InvalidType)
   \<and> fst (initTable (Store Map.empty Map.empty []) (JStr ''t'') (Schema_columns [])) = Inr ()
   \<and> tableSchemas (snd (initTable (Store Map.empty Map.empty []) (JStr ''t'')
        (Schema_columns []))) ''t'' = Some \<lparr>columns = [(''id'', Col_string)]\<rparr>"
proof -
  let ?s = "Store Map.empty Map.empty []"
  have a: "fst (initTable ?s (JNum (Fin 7)) (Schema_columns [])) = Inl (createError InvalidType)"
    using initTable_validation [of ?s "JNum (Fin 7)" "Schema_columns []"] by simp
  have b: "snd (initTable ?s (JNum (Fin 7)) (Schema_columns [])) = ?s"
    using initTable_validation [of ?s "JNum (Fin 7)" "Schema_columns []"] a by simp
  have c: "fst (initTable ?s (JStr ''t'') Columns_missing) = Inl (createError InvalidType)"
    using initTable_validation [of ?s "JStr ''t''" Columns_missing] by simp
  have d: "fst (initTable ?s (JStr ''t'') (Schema_columns [])) = Inr ()"
    by code_simp
  have e: "tableSchemas (snd (initTable ?s (JStr ''t'') (Schema_columns []))) ''t''
             = Some \<lparr>columns = [(''id'', Col_string)]\<rparr>"
    using initTable_validation [of ?s _ _ "''t''"] d by simp
  show ?thesis using a b c d e by simp
qed

section \<open>Registration: the id column of a stored schema (C7)\<close>

text \<open>
  C7, as stated: the stored schema has exactly one column named \<^verbatim>\<open>id\<close>, of type Text.
  \<^verbatim>\<open>createTableIfNotExists\<close> looks for a column of that name only; a caller's
  \<^verbatim>\<open>['id', 'number']\<close> is stored as given.
\<close>

theorem initTable_keeps_callers_id_type:
  "fst (initTable (Store Map.empty Map.empty []) (JStr ''t'')
          (Schema_columns [(''id'', Col_number)])) = Inr ()
   \<and> tableSchemas (snd (initTable (Store Map.empty Map.empty []) (JStr ''t'')
          (Schema_columns [(''id'', Col_number)]))) ''t''
       = Some \<lparr>columns = [(''id'', Col_number)]\<rparr>"
  by code_simp

text \<open>
  C7, amended: the schema stored by a successful \<^verbatim>\<open>initTable\<close> has a column named
  \<^verbatim>\<open>id\<close>.  When the caller supplied none, the stored list is the caller's list with
  \<^verbatim>\<open>['id', 'string']\<close> in front: one \<^verbatim>\<open>id\<close> column, of type Text, at index 0.  When the
  caller supplied one, the stored list is the caller's list unchanged, so the column keeps
  its position and the type the caller gave it.
\<close>

theorem initTable_id_column:
  assumes "fst (initTable s (JStr name) (Schema_columns cols)) = Inr ()"
  shows "\<exists>stored.
           tableSchemas (snd (initTable s (JStr name) (Schema_columns cols))) name
             = Some \<lparr>columns = stored\<rparr>
           \<and> ''id'' \<in> fst ` set stored
           \<and> (''id'' \<notin> fst ` set cols \<longrightarrow>
                stored = (''id'', Col_string) # cols
                \<and> filter (\<lambda>c. fst c = ''id'') stored = [(''id'', Col_string)])
           \<and> (''id'' \<in> fst ` set cols \<longrightarrow> stored = cols)"
proof -
  have ex: "list_ex (\<lambda>(n, ty). n = ''id'') cols = (''id'' \<in> fst ` set cols)"
    by (induction cols) auto
  have none: "''id'' \<notin> fst ` set cols \<Longrightarrow> filter (\<lambda>c. fst c = ''id'') cols = []"
    by (induction cols) auto
  show ?thesis
    using initTable_registers [OF assms] none by (auto simp: ex)
qed

theorem initTable_id_column_witness:
  "fst (initTable (Store Map.empty Map.empty []) (JStr ''t'')
          (Schema_columns [(''name'', Col_string)])) = Inr ()
   \<and> tableSchemas (snd (initTable (Store Map.empty Map.empty []) (JStr ''t'')
          (Schema_columns [(''name'', Col_string)]))) ''t''
       = Some \<lparr>columns = [(''id'', Col_string), (''name'', Col_string)]\<rparr>"
proof -
  let ?r = "initTable (Store Map.empty Map.empty []) (JStr ''t'')
              (Schema_columns [(''name'', Col_string)])"
  have ok: "fst ?r = Inr ()"
    by code_simp
  from initTable_id_column [OF ok] obtain stored
    where "tableSchemas (snd ?r) ''t'' = Some \<lparr>columns = stored\<rparr>"
      and "''id'' \<notin> fst ` set [(''name'', Col_string)] \<longrightarrow>
             stored = (''id'', Col_string) # [(''name'', Col_string)]"
    by blast
  then show ?thesis using ok by simp
qed

section \<open>Validation failures of \<open>add\<close> (C5)\<close>

lemma example_store_by_initTable:
  "map_option col_defs (db example_store ''t'') =
     map_option col_defs (db (snd (initTable (Store Map.empty Map.empty []) (JStr ''t'')
       (Schema_columns [(''age'', Col_number), (''flag'', Col_json)]))) ''t'')
   \<and> map_option (\<lambda>t. length (rows t)) (db example_store ''t'') =
     map_option (\<lambda>t. length (rows t))
       (db (snd (initTable (Store Map.empty Map.empty []) (JStr ''t'')
         (Schema_columns [(''age'', Col_number), (''flag'', Col_json)]))) ''t'')
   \<and> tableSchemas example_store ''t'' =
       tableSchemas (snd (initTable (Store Map.empty Map.empty []) (JStr ''t'')
         (Schema_columns [(''age'', Col_number), (''flag'', Col_json)]))) ''t''"
  by code_simp



section \<open>Deleting needs no registration (C10)\<close>

text \<open>
  C10: \<^verbatim>\<open>delete\<close> and \<^verbatim>\<open>deleteAll\<close> never read the schema registry.  Their only
  \<^verbatim>\<open>InvalidType\<close> is the one of the \<^verbatim>\<open>typeof\<close> tests on their arguments; called with
  strings they fail, on this instance or on a mirror, with an error of the storage engine
  or not at all, and the outcome is the same whatever the registry holds.  On a table
  that is not registered \<^verbatim>\<open>get\<close>, \<^verbatim>\<open>all\<close> and \<^verbatim>\<open>startsWith\<close> fail with \<^verbatim>\<open>InvalidType\<close>.
\<close>

theorem delete_never_consults_registry:
  "((fst (delete s tableName ident) = Inl (createError InvalidType)) =
      (typeof tableName \<noteq> ''string'' \<or> typeof ident \<noteq> ''string''))
   \<and> ((fst (deleteAll s tableName) = Inl (createError InvalidType)) =
      (typeof tableName \<noteq> ''string''))
   \<and> (fst (delete s (JStr name) (JStr i)) = Inl e \<longrightarrow> e = EngineError)
   \<and> (fst (deleteAll s (JStr name)) = Inl e \<longrightarrow> e = EngineError)
   \<and> fst (delete (Store (db s) registry (mirrors s)) tableName ident)
       = fst (delete s tableName ident)
   \<and> fst (deleteAll (Store (db s) registry (mirrors s)) tableName)
       = fst (deleteAll s tableName)
   \<and> (tableSchemas s name = None \<longrightarrow>
        get s (JStr name) (JStr i) = Inl (createError InvalidType)
        \<and> all s (JStr name) = Inl (createError InvalidType)
        \<and> startsWith s (JStr name) (JStr q) = Inl (createError InvalidType))"
proof -
  have a: "(fst (delete s tableName ident) = Inl (createError InvalidType)) =
      (typeof tableName \<noteq> ''string'' \<or> typeof ident \<noteq> ''string'')"
    using delete_error_kind(1) [of tableName ident s InvalidType]
      delete_rejects [of tableName ident s]
    by (auto simp: createError_def)
  have b: "(fst (deleteAll s tableName) = Inl (createError InvalidType)) =
      (typeof tableName \<noteq> ''string'')"
    using deleteAll_error_kind(1) [of tableName s InvalidType]
      deleteAll_rejects [of tableName s]
    by (auto simp: createError_def)
  have c: "fst (delete (Store (db s) registry (mirrors s)) tableName ident)
       = fst (delete s tableName ident)"
    using delete_registry [of "db s" registry "mirrors s" tableName ident "tableSchemas s"]
    by simp
  have d: "fst (deleteAll (Store (db s) registry (mirrors s)) tableName)
       = fst (deleteAll s tableName)"
    using deleteAll_registry [of "db s" registry "mirrors s" tableName "tableSchemas s"]
    by simp
  have e: "tableSchemas s name = None \<longrightarrow>
        get s (JStr name) (JStr i) = Inl (createError InvalidType)
        \<and> all s (JStr name) = Inl (createError InvalidType)
        \<and> startsWith s (JStr name) (JStr q) = Inl (createError InvalidType)"
    by (simp add: get_def all_def startsWith_def)
  show ?thesis
    using a b c d e delete_error deleteAll_error by blast
qed

theorem delete_never_consults_registry_witness:
  "fst (delete (Store Map.empty Map.empty []) (JStr ''ghost'') (JStr ''x'')) = Inl EngineError
   \<and> fst (deleteAll (Store Map.empty Map.empty []) (JStr ''ghost'')) = Inl EngineError
   \<and> get (Store Map.empty Map.empty []) (JStr ''ghost'') (JStr ''x'')
        = Inl (createError InvalidType)
   \<and> fst (delete (Store Map.empty Map.empty []) (JStr ''ghost'') (JNum (Fin 1)))
        = Inl (createError InvalidType)"
proof -
  let ?s = "Store Map.empty Map.empty []"
  note t = delete_never_consults_registry
    [of ?s _ _ "''ghost''" "''x''" _ Map.empty]
  have unknown: "tableSchemas ?s ''ghost'' = None" by simp
  have 1: "fst (delete ?s (JStr ''ghost'') (JStr ''x'')) = Inl EngineError"
    by code_simp
  have 2: "fst (deleteAll ?s (JStr ''ghost'')) = Inl EngineError"
    by code_simp
  have 3: "get ?s (JStr ''ghost'') (JStr ''x'') = Inl (createError InvalidType)"
    using t unknown by blast
  have 4: "fst (delete ?s (JStr ''ghost'') (JNum (Fin 1))) = Inl (createError InvalidType)"
    using delete_never_consults_registry [of ?s "JStr ''ghost''" "JNum (Fin 1)"] by simp
  show ?thesis
    using 1 2 3 4 t by blast
qed


section \<open>Stored text that is not JSON (C6)\<close>

text \<open>
  C6: reading stored text that is not valid JSON under a \<^verbatim>\<open>json\<close> column should fail with
  an error of kind \<^verbatim>\<open>ParseException\<close>.  \<^verbatim>\<open>deserializeValue\<close> calls \<^verbatim>\<open>JSON.parse\<close>
  outside any \<^verbatim>\<open>try\<close>, so the \<^verbatim>\<open>SyntaxError\<close> of the language reaches the caller of
  \<^verbatim>\<open>get\<close> as it is, without a kind; no path of the code creates a \<^verbatim>\<open>ParseException\<close>
  (\<open>deserializeValue_error\<close>, \<open>get_error\<close>).  The evaluation below is the failing run,
  on the function alone and through the operations of the store.
\<close>

theorem invalid_json_raises_SyntaxError:
  "deserializeValue (JStr ''{bad'') Col_json = Inl SyntaxError
   \<and> fst (initTable (Store Map.empty Map.empty []) (JStr ''t'')
          (Schema_columns [(''doc'', Col_string)])) = Inr ()
   \<and> map_option columns (tableSchemas reregistered_store ''t'')
        = Some [(''id'', Col_string), (''doc'', Col_json)]
   \<and> failure (get reregistered_store (JStr ''t'') (JStr ''x'')) = Some SyntaxError"
  by code_simp


section \<open>Replication to the mirrors (C3)\<close>



lemma replay_stops_at_first_failure_example:
  "failure (fst (add badly_mirrored_store (JStr ''t'') [''id'' \<mapsto> JStr ''x'']))
     = Some (createError InvalidType)
   \<and> has (snd (add badly_mirrored_store (JStr ''t'') [''id'' \<mapsto> JStr ''x'']))
        (JStr ''t'') (JStr ''x'') = Inr True
   \<and> map (\<lambda>m. has m (JStr ''t'') (JStr ''x''))
        (mirrors (snd (add badly_mirrored_store (JStr ''t'') [''id'' \<mapsto> JStr ''x''])))
       = [Inr True, Inl (createError InvalidType), Inr False]"
  by code_simp


section \<open>Round trip of the coercion (C1)\<close>

text \<open>
  C1, as stated: for every column type and every value of that type, deserializing the
  serialized value gives the value back.  The type \<^verbatim>\<open>json\<close> is ``any serializable type''
  (the comment in \<^verbatim>\<open>validateRowData\<close>, which accepts whatever \<^verbatim>\<open>JSON.stringify\<close> does not
  throw on).  The number \<open>NaN\<close> is such a value; \<^verbatim>\<open>JSON.stringify\<close> writes it as
  \<^verbatim>\<open>null\<close>, and \<^verbatim>\<open>null\<close> is what comes back.
\<close>

theorem json_NaN_does_not_round_trip:
  "validate_columns [(''flag'', Col_json)] [''flag'' \<mapsto> JNum NaN] = Inr ()
   \<and> serializeValue (JNum NaN) Col_json = JStr ''null''
   \<and> deserializeValue (serializeValue (JNum NaN) Col_json) Col_json = Inr JNull
   \<and> deserializeValue (serializeValue (JNum NaN) Col_json) Col_json \<noteq> Inr (JNum NaN)"
  by code_simp

text \<open>
  C1, amended: the round trip is exact for every string under \<^verbatim>\<open>string\<close>, every number
  under \<^verbatim>\<open>number\<close>, every boolean under \<^verbatim>\<open>boolean\<close>, and under \<^verbatim>\<open>json\<close> for every value
  that JSON text can hold (\<open>json_value\<close>).  Any other value under \<^verbatim>\<open>json\<close>, unless it is
  \<^verbatim>\<open>undefined\<close>, comes back as \<open>through_json\<close> of it.  (Equality is identity of values; numbers
  are the integers, \<open>NaN\<close> and the infinities.)
\<close>

theorem coercion_round_trip:
  "(value_of_type ty v \<longrightarrow> deserializeValue (serializeValue v ty) ty = Inr v)
   \<and> (v \<noteq> JUndefined \<longrightarrow>
        deserializeValue (serializeValue v Col_json) Col_json = Inr (through_json v))"
proof -
  have json: "deserializeValue (serializeValue v Col_json) Col_json = Inr (through_json v)"
    if "v \<noteq> JUndefined"
    using JSON_roundtrip [OF that] that
    by (simp add: deserializeValue_def serializeValue_def JSON_stringify_def)
  have "deserializeValue (serializeValue v ty) ty = Inr v" if t: "value_of_type ty v"
  proof (cases ty)
    case Col_string
    then show ?thesis
      using t by (auto simp: typeof_string deserializeValue_def serializeValue_def)
  next
    case Col_number
    then show ?thesis
      using t by (auto simp: typeof_number deserializeValue_def serializeValue_def)
  next
    case Col_boolean
    then show ?thesis
      using t by (auto simp: typeof_boolean deserializeValue_def serializeValue_def)
  next
    case Col_json
    then have jv: "json_value v" using t by simp
    then have "v \<noteq> JUndefined" by auto
    from json [OF this] show ?thesis
      by (simp add: Col_json through_json_id [OF jv])
  qed
  then show ?thesis using json by blast
qed

theorem coercion_round_trip_witness:
  "deserializeValue (serializeValue (JStr ''Jo'') Col_string) Col_string = Inr (JStr ''Jo'')
   \<and> deserializeValue (serializeValue (JNum (Fin (- 3))) Col_number) Col_number
        = Inr (JNum (Fin (- 3)))
   \<and> deserializeValue (serializeValue (JBool False) Col_boolean) Col_boolean = Inr (JBool False)
   \<and> deserializeValue
        (serializeValue (JObj [(''role'', JStr ''admin''), (''tags'', JArr [JNum (Fin 1), JNull])])
           Col_json) Col_json
        = Inr (JObj [(''role'', JStr ''admin''), (''tags'', JArr [JNum (Fin 1), JNull])])
   \<and> deserializeValue (serializeValue (JArr [JUndefined, JNum PosInf]) Col_json) Col_json
        = Inr (JArr [JNull, JNull])"
proof -
  let ?doc = "JObj [(''role'', JStr ''admin''), (''tags'', JArr [JNum (Fin 1), JNull])]"
  have a: "deserializeValue (serializeValue (JStr ''Jo'') Col_string) Col_string
             = Inr (JStr ''Jo'')"
    using coercion_round_trip [of Col_string "JStr ''Jo''"] by simp
  have b: "deserializeValue (serializeValue (JNum (Fin (- 3))) Col_number) Col_number
             = Inr (JNum (Fin (- 3)))"
    using coercion_round_trip [of Col_number "JNum (Fin (- 3))"] by simp
  have c: "deserializeValue (serializeValue (JBool False) Col_boolean) Col_boolean
             = Inr (JBool False)"
    using coercion_round_trip [of Col_boolean "JBool False"] by simp
  have d: "deserializeValue (serializeValue ?doc Col_json) Col_json = Inr ?doc"
    using coercion_round_trip [of Col_json ?doc] by simp
  have e: "deserializeValue (serializeValue (JArr [JUndefined, JNum PosInf]) Col_json) Col_json
             = Inr (JArr [JNull, JNull])"
    using coercion_round_trip [of _ "JArr [JUndefined, JNum PosInf]"] by simp
  show ?thesis using a b c d e by blast
qed


section \<open>Write, then read (C2)\<close>






section \<open>Incrementing a column that the schema does not declare (C9)\<close>

text \<open>
  C9, as stated: for every column name that the schema does not declare, \<^verbatim>\<open>increment\<close> on an
  existing record succeeds and returns the delta.  The record read is an ordinary object,
  so under a name such as \<^verbatim>\<open>toString\<close> the lookup \<^verbatim>\<open>record[column]\<close> finds the function
  inherited from \<^verbatim>\<open>Object.prototype\<close>, which is not a number: \<^verbatim>\<open>increment\<close> throws
  \<^verbatim>\<open>InvalidType\<close>.
\<close>

theorem increment_inherited_name_fails:
  "has stored_example (JStr ''t'') (JStr ''x'') = Inr True
   \<and> map_option (map fst \<circ> columns) (tableSchemas stored_example ''t'')
       = Some [''id'', ''age'', ''flag'']
   \<and> fst (increment stored_example (JStr ''t'') (JStr ''x'') ''toString'' (Fin 10))
       = Inl (createError InvalidType)"
  by code_simp

text \<open>
  C9, amended: let the table be registered with a schema whose engine table is the one
  registration creates and whose \<^verbatim>\<open>id\<close> column is declared \<^verbatim>\<open>string\<close>, let \<^verbatim>\<open>get\<close> return
  a record for the id, one that passes validation (as what \<^verbatim>\<open>add\<close> has written does,
  \<open>written_record_valid\<close>), and let the column name be neither declared in the schema nor a property
  name of \<^verbatim>\<open>Object.prototype\<close>.  Then \<^verbatim>\<open>increment\<close> returns the delta, provided the mirrors
  accept what is written back; and, whatever the mirrors do, a subsequent \<^verbatim>\<open>get\<close> of the id
  returns a record without the field.
\<close>

theorem increment_undeclared_column:
  assumes reg: "tableSchemas s name = Some schema"
    and tm: "table_matches (db s) name schema"
    and idcol: "(''id'', Col_string) \<in> set (columns schema)"
    and existing: "get s (JStr name) (JStr i) = Inr (Some record)"
    and valid: "validateRowData (tableSchemas s) name record = Inr ()"
    and undeclared: "c \<notin> fst ` set (columns schema)"
    and own: "c \<notin> set Object_prototype"
  shows "(failure (fst (add_mirrors (mirrors s) (JStr name) (record(c \<mapsto> JNum d)))) = None
            \<longrightarrow> fst (increment s (JStr name) (JStr i) c d) = Inr d)
         \<and> (\<exists>after. get (snd (increment s (JStr name) (JStr i) c d)) (JStr name) (JStr i)
                        = Inr (Some after)
                    \<and> after c = None)"
proof -
  let ?r = "record(c \<mapsto> JNum d)"
  from table_matches_table [OF tm] have dist: "distinct (map fst (columns schema))"
    and idin: "''id'' \<in> fst ` set (columns schema)" by blast+
  have absent: "record c = None" by (rule get_undeclared [OF existing reg undeclared])
  have id: "?r ''id'' = Some (JStr i)"
    using get_id [OF existing reg dist idcol] idin undeclared by auto
  have "validateRowData (tableSchemas s) name ?r = validateRowData (tableSchemas s) name record"
    using undeclared
    by (intro validateRowData_cong [where ts = "tableSchemas s" and schema = schema, OF reg idin]) auto
  then have valid': "validateRowData (tableSchemas s) name ?r = Inr ()" using valid by simp
  from table_matches_table [OF tm] obtain t where t: "db s name = Some t" by blast
  note local = add_local_valid [OF reg tm t valid']
  have returned: "fst (increment s (JStr name) (JStr i) c d) = Inr d"
    if "failure (fst (add_mirrors (mirrors s) (JStr name) ?r)) = None"
    using increment_adds(2) [OF existing absent own] add_local_store(2) [OF local that] by simp
  have "get (snd (increment s (JStr name) (JStr i) c d)) (JStr name) (JStr i)
          = Inr (Some (record_of_row (columns schema) (written_row (columns schema) ?r)))"
    unfolding increment_adds(1) [OF existing absent own]
    by (rule written_then_got [OF reg tm idcol valid' id])
  moreover have "record_of_row (columns schema) (written_row (columns schema) ?r) c = None"
    by (rule record_of_row_undeclared [OF undeclared])
  ultimately show ?thesis using returned by blast
qed

theorem increment_undeclared_column_witness:
  "fst (increment stored_example (JStr ''t'') (JStr ''x'') ''score'' (Fin 10)) = Inr (Fin 10)
   \<and> (\<exists>after. get (snd (increment stored_example (JStr ''t'') (JStr ''x'') ''score'' (Fin 10)))
                  (JStr ''t'') (JStr ''x'') = Inr (Some after)
              \<and> after ''score'' = None)"
proof -
  let ?schema = "\<lparr>columns = [(''id'', Col_string), (''age'', Col_number), (''flag'', Col_json)]\<rparr>"
  let ?found = "record_of_row (columns ?schema) (written_row (columns ?schema) typed_record)"
  have reg0: "tableSchemas example_store ''t'' = Some ?schema"
    by (simp add: example_store_def)
  have tm0: "table_matches (db example_store) ''t'' ?schema"
    by code_simp
  have idcol: "(''id'', Col_string) \<in> set (columns ?schema)"
    by simp
  have valid0: "validateRowData (tableSchemas example_store) ''t'' typed_record = Inr ()"
    by code_simp
  have id0: "typed_record ''id'' = Some (JStr ''x'')"
    by (simp add: typed_record_def)
  have reg: "tableSchemas stored_example ''t'' = Some ?schema"
    by code_simp
  have tm: "table_matches (db stored_example) ''t'' ?schema"
    by code_simp
  have existing: "get stored_example (JStr ''t'') (JStr ''x'') = Inr (Some ?found)"
    unfolding stored_example_def by (rule written_then_got [OF reg0 tm0 idcol valid0 id0])
  have valid: "validateRowData (tableSchemas stored_example) ''t'' ?found = Inr ()"
    by code_simp
  have undeclared: "''score'' \<notin> fst ` set (columns ?schema)"
    by simp
  have own: "''score'' \<notin> set Object_prototype"
    by (simp add: Object_prototype_def)
  have mirrors: "failure (fst (add_mirrors (mirrors stored_example) (JStr ''t'')
                    (?found(''score'' \<mapsto> JNum (Fin 10))))) = None"
    by code_simp
  from increment_undeclared_column [OF reg tm idcol existing valid undeclared own, of "Fin 10"] mirrors
  show ?thesis by blast
qed


section \<open>The outcomes of \<open>increment\<close> (C4)\<close>






end
